theory Spec2Isabelle
  imports Main "HOL-Library.Word" "HOL-Library.Monad_Syntax"
begin

unbundle bit_operations_syntax

section \<open>Transfer engine (src/transfer.ts)\<close>

subsection \<open>Data model\<close>

text \<open>
  An FTP response as delivered by the control connection, and a JavaScript \<open>Error\<close>:
  its message and the optional \<open>code\<close> property that socket errors carry.
\<close>

record FTPResponse =
  code :: int
  message :: string

record Error =
  errMessage :: string
  errCode :: "string option"

text \<open>
  Sockets are objects shared between the context, the closures of a transfer and the
  upload configuration, so they live in a store and are named by references. Of a
  socket the transfer engine touches the idle timeout (\<open>setTimeout\<close>), the remote
  address, \<open>end()\<close> and \<open>destroy()\<close>, and for a TLS socket whether the handshake is
  over (\<open>getCipher() !== undefined\<close>).
\<close>

type_synonym sockref = nat

record Socket =
  sockTimeout :: int
  remoteAddress :: "string option"
  ended :: bool
  destroyed :: bool
  hasGetCipher :: bool
  cipherKnown :: bool

text \<open>
  The connection context. \<open>FtpContext.ts\<close> is not among the sources; the record holds
  the fields \<open>transfer.ts\<close> reads and writes, and \<open>closedWith\<close> records a call of
  \<open>closeWithError\<close>, \<open>sent\<close> the commands given to \<open>send\<close>.
\<close>

record FTPContext =
  socket :: sockref
  dataSocket :: "sockref option"
  timeout :: int
  ipFamily :: "int option"
  closedWith :: "Error option"
  sent :: "string list"

text \<open>
  What a transfer does to the objects it is handed is kept as logs: the calls on the
  \<open>TaskResolver\<close> of the running task and the calls on the \<open>ProgressTracker\<close>.
\<close>

datatype TaskCall = Resolve FTPResponse | Reject Error

datatype ProgressCall = ProgressStart sockref string string | ProgressUpdateAndStop

text \<open>
  The state of one transfer: the context, the socket store, the two fields of the
  \<open>TransferResolver\<close>, and the logs.
\<close>

record Transfer =
  ftp :: FTPContext
  heap :: "sockref \<Rightarrow> Socket"
  response :: "FTPResponse option"
  dataTransferDone :: bool
  task :: "TaskCall list"
  progress :: "ProgressCall list"

definition setTimeout :: "sockref \<Rightarrow> int \<Rightarrow> (sockref \<Rightarrow> Socket) \<Rightarrow> (sockref \<Rightarrow> Socket)" where
  "setTimeout r ms h = h(r := (h r)\<lparr>sockTimeout := ms\<rparr>)"

subsection \<open>TransferResolver\<close>

definition newTransfer :: "FTPContext \<Rightarrow> (sockref \<Rightarrow> Socket) \<Rightarrow> Transfer" where
  "newTransfer c h =
     \<lparr>ftp = c, heap = h, response = None, dataTransferDone = False, task = [], progress = []\<rparr>"

text \<open>\<open>onDataStart\<close> throws when the context has no data socket; the state is then unchanged.\<close>

definition onDataStart :: "string \<Rightarrow> string \<Rightarrow> Transfer \<Rightarrow> Error + Transfer" where
  "onDataStart name type t =
     (case dataSocket (ftp t) of
        None \<Rightarrow> Inl \<lparr>errMessage = ''Data transfer should start but there is no data connection.'',
                      errCode = None\<rparr>
      | Some d \<Rightarrow>
          Inr (t\<lparr>heap := setTimeout d (timeout (ftp t)) (setTimeout (socket (ftp t)) 0 (heap t)),
                 progress := progress t @ [ProgressStart d name type]\<rparr>))"

definition tryResolve :: "Transfer \<Rightarrow> Transfer" where
  "tryResolve t =
     (let canResolve = (dataTransferDone t \<and> response t \<noteq> None) in
      if canResolve
      then t\<lparr>ftp := (ftp t)\<lparr>dataSocket := None\<rparr>, task := task t @ [Resolve (the (response t))]\<rparr>
      else t)"

definition onDataDone :: "Transfer \<Rightarrow> Transfer" where
  "onDataDone t =
     (let t1 = t\<lparr>progress := progress t @ [ProgressUpdateAndStop]\<rparr>;
          t2 = t1\<lparr>heap := setTimeout (socket (ftp t1)) (timeout (ftp t1)) (heap t1)\<rparr>;
          t3 = (case dataSocket (ftp t2) of
                  None \<Rightarrow> t2
                | Some d \<Rightarrow> t2\<lparr>heap := setTimeout d 0 (heap t2)\<rparr>);
          t4 = t3\<lparr>dataTransferDone := True\<rparr>
      in tryResolve t4)"

definition onControlDone :: "FTPResponse \<Rightarrow> Transfer \<Rightarrow> Transfer" where
  "onControlDone res t = tryResolve (t\<lparr>response := Some res\<rparr>)"

definition onError :: "Error \<Rightarrow> Transfer \<Rightarrow> Transfer" where
  "onError err t =
     (let t1 = t\<lparr>progress := progress t @ [ProgressUpdateAndStop]\<rparr>;
          t2 = t1\<lparr>heap := setTimeout (socket (ftp t1)) (timeout (ftp t1)) (heap t1)\<rparr>;
          t3 = t2\<lparr>ftp := (ftp t2)\<lparr>dataSocket := None\<rparr>\<rparr>
      in t3\<lparr>task := task t3 @ [Reject err]\<rparr>)"

definition onUnexpectedRequest :: "FTPResponse \<Rightarrow> Transfer \<Rightarrow> Transfer" where
  "onUnexpectedRequest res t =
     t\<lparr>ftp := (ftp t)\<lparr>closedWith :=
          Some \<lparr>errMessage = ''Unexpected FTP response is requesting an answer: '' @ message res,
                errCode = None\<rparr>\<rparr>\<rparr>"

text \<open>The two completion signals of a transfer, in the order they arrive.\<close>

datatype Signal = DataDone | ControlDone FTPResponse

fun signal :: "Signal \<Rightarrow> Transfer \<Rightarrow> Transfer" where
  "signal DataDone t = onDataDone t"
| "signal (ControlDone res) t = onControlDone res t"

definition signals :: "Signal list \<Rightarrow> Transfer \<Rightarrow> Transfer" where
  "signals evs t = fold signal evs t"

subsection \<open>Uploads, and uploads through a SOCKS5 proxy\<close>

text \<open>
  Modelled from the spec: \<open>positiveCompletion\<close> and \<open>positiveIntermediate\<close> live in
  \<open>parseControlResponse.ts\<close>, which is not among the sources; the spec's glossary gives
  positive completion as 2xx and positive intermediate as 3xx.
\<close>

definition positiveCompletion :: "int \<Rightarrow> bool" where
  "positiveCompletion c = (200 \<le> c \<and> c < 300)"

definition positiveIntermediate :: "int \<Rightarrow> bool" where
  "positiveIntermediate c = (300 \<le> c \<and> c < 400)"

text \<open>
  \<open>useSocksProxy\<close> is the truthiness of \<open>config.accessOptions?.useSocksProxy\<close>.
\<close>

record TransferConfig =
  command :: string
  remotePath :: string
  transferType :: string
  useSocksProxy :: bool

text \<open>
  One started pipeline of an upload. For a proxied upload it carries what
  \<open>uploadBySocksProxy\<close> keeps: the captured data socket, the flag \<open>remoteSizeAlright\<close>,
  the counter \<open>translength\<close> of the pass-through, and the size probes that were started
  and have not answered yet, each with the \<open>translength\<close> it was called with.
\<close>

record UploadConfigs =
  viaSocks :: bool
  upSocket :: sockref
  remoteSizeAlright :: bool
  translength :: nat
  probes :: "nat list"

record Upload =
  xfer :: Transfer
  uploads :: "UploadConfigs list"
  deferred :: "sockref list"
  thrown :: "Error option"

definition newUpload :: "FTPContext \<Rightarrow> (sockref \<Rightarrow> Socket) \<Rightarrow> Upload" where
  "newUpload c h = \<lparr>xfer = newTransfer c h, uploads = [], deferred = [], thrown = None\<rparr>"

text \<open>
  The resolver's operations act on the transfer of an upload.
\<close>

definition lift :: "(Transfer \<Rightarrow> Transfer) \<Rightarrow> Upload \<Rightarrow> Upload" where
  "lift f u = u\<lparr>xfer := f (xfer u)\<rparr>"

text \<open>
  The action run once the data socket can take the upload: \<open>onDataStart\<close>, then either
  \<open>uploadBySocksProxy\<close> (the flag is reset and the pipeline source, pass-through, data
  socket is started) or the plain pipeline source, data socket.
\<close>

definition startUpload :: "TransferConfig \<Rightarrow> sockref \<Rightarrow> Upload \<Rightarrow> Upload" where
  "startUpload config d u =
     (case onDataStart (remotePath config) (transferType config) (xfer u) of
        Inl e \<Rightarrow> u\<lparr>thrown := Some e\<rparr>
      | Inr t \<Rightarrow>
          (let u1 = u\<lparr>xfer := t\<rparr> in
           u1\<lparr>uploads := uploads u1 @
                 [\<lparr>viaSocks = useSocksProxy config, upSocket = d, remoteSizeAlright = False,
                   translength = 0, probes = []\<rparr>]\<rparr>))"

definition onConditionOrEvent :: "bool \<Rightarrow> sockref \<Rightarrow> (Upload \<Rightarrow> Upload) \<Rightarrow> Upload \<Rightarrow> Upload" where
  "onConditionOrEvent condition emitter action u =
     (if condition then action u else u\<lparr>deferred := deferred u @ [emitter]\<rparr>)"

text \<open>The handler \<open>uploadFrom\<close> gives to \<open>ftp.handle\<close>, called with an error or a response.\<close>

definition uploadHandler :: "TransferConfig \<Rightarrow> Error + FTPResponse \<Rightarrow> Upload \<Rightarrow> Upload" where
  "uploadHandler config res u =
     (case res of
        Inl err \<Rightarrow> lift (onError err) u
      | Inr r \<Rightarrow>
          if code r = 150 \<or> code r = 125 then
            (case dataSocket (ftp (xfer u)) of
               None \<Rightarrow> lift (onError \<lparr>errMessage = ''Upload should begin but no data connection is available.'',
                                       errCode = None\<rparr>) u
             | Some d \<Rightarrow>
                 (let canUpload = (if hasGetCipher (heap (xfer u) d) then cipherKnown (heap (xfer u) d) else True)
                  in onConditionOrEvent canUpload d (startUpload config d) u))
          else if positiveCompletion (code r) then lift (onControlDone r) u
          else if positiveIntermediate (code r) then lift (onUnexpectedRequest r) u
          else u)"

text \<open>
  The callback the pipeline of pipeline \<open>i\<close> is given. For a proxied upload an error is
  passed over only when it is \<open>ECONNRESET\<close> and the flag is set.
\<close>

definition pipelineCallback :: "nat \<Rightarrow> Error option \<Rightarrow> Upload \<Rightarrow> Upload" where
  "pipelineCallback i err u =
     (if i < length (uploads u) then
        (let cfg = uploads u ! i in
         if viaSocks cfg then
           (case err of
              Some e \<Rightarrow>
                if errCode e = Some ''ECONNRESET'' \<and> remoteSizeAlright cfg
                then lift onDataDone u
                else lift (onError e) u
            | None \<Rightarrow> lift onDataDone u)
         else
           (case err of
              Some e \<Rightarrow> lift (onError e) u
            | None \<Rightarrow> lift onDataDone u))
      else u)"

text \<open>
  \<open>CustomPassThrough.write\<close> adds the chunk's length to \<open>translength\<close>;
  \<open>CustomPassThrough.end\<close> starts \<open>checkRemoteSize(translength)\<close> and ends nothing.
\<close>

definition passThroughWrite :: "nat \<Rightarrow> nat \<Rightarrow> Upload \<Rightarrow> Upload" where
  "passThroughWrite i len u =
     (if i < length (uploads u) \<and> viaSocks (uploads u ! i)
      then u\<lparr>uploads := (uploads u)[i := (uploads u ! i)\<lparr>translength := translength (uploads u ! i) + len\<rparr>]\<rparr>
      else u)"

definition passThroughEnd :: "nat \<Rightarrow> Upload \<Rightarrow> Upload" where
  "passThroughEnd i u =
     (if i < length (uploads u) \<and> viaSocks (uploads u ! i)
      then u\<lparr>uploads := (uploads u)[i := (uploads u ! i)\<lparr>probes := probes (uploads u ! i) @ [translength (uploads u ! i)]\<rparr>]\<rparr>
      else u)"

text \<open>
  The end of \<open>checkRemoteSize\<close>, once the second client answered: \<open>Some n\<close> is the size
  \<open>SIZE\<close> returned, \<open>None\<close> an error thrown by \<open>access\<close> or \<open>size\<close>, which leaves
  \<open>serverFileSize\<close> at 0. On both branches the data socket is ended.
\<close>

definition checkRemoteSize :: "nat \<Rightarrow> nat option \<Rightarrow> Upload \<Rightarrow> Upload" where
  "checkRemoteSize i answer u =
     (if i < length (uploads u) then
        (case probes (uploads u ! i) of
           [] \<Rightarrow> u
         | len # rest \<Rightarrow>
             (let cfg = (uploads u ! i)\<lparr>probes := rest\<rparr>;
                  serverFileSize = (case answer of Some n \<Rightarrow> n | None \<Rightarrow> 0);
                  cfg' = (if serverFileSize = len then cfg\<lparr>remoteSizeAlright := True\<rparr> else cfg);
                  d = upSocket cfg'
              in u\<lparr>uploads := (uploads u)[i := cfg'],
                    xfer := (xfer u)\<lparr>heap := (heap (xfer u))(d := (heap (xfer u) d)\<lparr>ended := True\<rparr>)\<rparr>\<rparr>))
      else u)"

text \<open>Everything that can happen to a running upload, and the upload as a fold over it.\<close>

datatype UploadEvent =
    Res "Error + FTPResponse"
  | SecureConnect sockref
  | SourceChunk nat nat
  | SourceEnd nat
  | ProbeDone nat "nat option"
  | PipelineDone nat "Error option"

fun fireDeferred :: "TransferConfig \<Rightarrow> sockref \<Rightarrow> sockref list \<Rightarrow> Upload \<Rightarrow> Upload" where
  "fireDeferred config d [] u = u"
| "fireDeferred config d (x # xs) u =
     (if x = d then fireDeferred config d xs (startUpload config d u)
      else fireDeferred config d xs u)"

fun uploadStep :: "TransferConfig \<Rightarrow> UploadEvent \<Rightarrow> Upload \<Rightarrow> Upload" where
  "uploadStep config (Res r) u = uploadHandler config r u"
| "uploadStep config (SecureConnect d) u =
     fireDeferred config d (deferred u) (u\<lparr>deferred := filter (\<lambda>x. x \<noteq> d) (deferred u)\<rparr>)"
| "uploadStep config (SourceChunk i len) u = passThroughWrite i len u"
| "uploadStep config (SourceEnd i) u = passThroughEnd i u"
| "uploadStep config (ProbeDone i answer) u = checkRemoteSize i answer u"
| "uploadStep config (PipelineDone i err) u = pipelineCallback i err u"

definition uploadFrom :: "TransferConfig \<Rightarrow> UploadEvent list \<Rightarrow> Upload \<Rightarrow> Upload" where
  "uploadFrom config evs u = fold (uploadStep config) evs u"

text \<open>
  The \<open>secureConnect\<close> a data socket issues when the 150 or 125 found its TLS handshake
  still open (\<open>getCipher()\<close> undefined); the upload's action waits for it.
\<close>

definition pendingHandshake :: "FTPContext \<Rightarrow> (sockref \<Rightarrow> Socket) \<Rightarrow> UploadEvent list" where
  "pendingHandshake c h =
     (case dataSocket c of
        None \<Rightarrow> []
      | Some d \<Rightarrow> if hasGetCipher (h d) \<and> \<not> cipherKnown (h d) then [SecureConnect d] else [])"

text \<open>
  A proxied upload up to the answer of the size probe: the server's 150 or 125, the
  \<open>secureConnect\<close> of the data socket when the upload has to wait for it, the chunks of
  the source, its end, and the probe's answer. \<open>serverFileSize\<close> is the variable of
  that name in \<open>checkRemoteSize\<close>: the size \<open>SIZE\<close> gave, and its initial 0 when the
  probe threw.
\<close>

definition probedUpload ::
  "TransferConfig \<Rightarrow> FTPResponse \<Rightarrow> nat list \<Rightarrow> nat option \<Rightarrow> FTPContext \<Rightarrow> (sockref \<Rightarrow> Socket) \<Rightarrow> Upload"
where
  "probedUpload config r ns answer c h =
     uploadFrom config
       (Res (Inr r) # pendingHandshake c h @ map (SourceChunk 0) ns @ [SourceEnd 0, ProbeDone 0 answer])
       (newUpload c h)"

definition serverFileSize :: "nat option \<Rightarrow> nat" where
  "serverFileSize answer = (case answer of Some n \<Rightarrow> n | None \<Rightarrow> 0)"

text \<open>A context with control socket 0 and data socket 1, plain sockets, and a proxied upload.\<close>

definition ctx0 :: FTPContext where
  "ctx0 = \<lparr>socket = 0, dataSocket = Some 1, timeout = 30000, ipFamily = Some 4,
            closedWith = None, sent = []\<rparr>"

definition heap0 :: "sockref \<Rightarrow> Socket" where
  "heap0 = (\<lambda>_. \<lparr>sockTimeout = 0, remoteAddress = None, ended = False, destroyed = False,
                  hasGetCipher = False, cipherKnown = False\<rparr>)"

definition socksConfig :: TransferConfig where
  "socksConfig = \<lparr>command = ''STOR'', remotePath = ''a.bin'', transferType = ''upload'',
                   useSocksProxy = True\<rparr>"

definition res150 :: FTPResponse where
  "res150 = \<lparr>code = 150, message = ''150 Ok to send data.''\<rparr>"

definition res226 :: FTPResponse where
  "res226 = \<lparr>code = 226, message = ''226 Transfer complete.''\<rparr>"

definition econnreset :: Error where
  "econnreset = \<lparr>errMessage = ''read ECONNRESET'', errCode = Some ''ECONNRESET''\<rparr>"

section \<open>JavaScript numbers and strings\<close>

text \<open>
  Strings are lists of code units; the model takes code units below 256. The numbers
  the sources compute with are integer-valued doubles, \<open>NaN\<close> and the infinities.
  \<open>toDouble\<close> is the double nearest to an integer: exact below \<open>2^53\<close>, and beyond that
  rounded to 53 significant bits, ties to even, overflowing to infinity.
\<close>

datatype number = NaN | Infinity | NegInfinity | Num int

fun bitLength :: "nat \<Rightarrow> nat" where
  "bitLength n = (if n = 0 then 0 else Suc (bitLength (n div 2)))"

definition toDouble :: "int \<Rightarrow> number" where
  "toDouble n =
     (let a = nat \<bar>n\<bar> in
      if a < 2 ^ 53 then Num n
      else
        (let e = bitLength a - 53;
             q = a div 2 ^ e;
             r = a mod 2 ^ e;
             q' = (if 2 * r > 2 ^ e \<or> (2 * r = 2 ^ e \<and> odd q) then q + 1 else q)
         in if q' * 2 ^ e \<ge> 2 ^ 1024 then (if n < 0 then NegInfinity else Infinity)
            else Num (sgn n * int (q' * 2 ^ e))))"

text \<open>
  \<open>parseInt(string, radix)\<close> for a radix from 2 to 36, as the sources call it with 10
  and 16: leading white space is skipped, a sign is read, with radix 16 a prefix
  \<open>0x\<close> or \<open>0X\<close> is dropped, and the longest run of digits of the radix is the value;
  no digit gives \<open>NaN\<close>.
\<close>

definition isWhiteSpace :: "char \<Rightarrow> bool" where
  "isWhiteSpace c = ((of_char c :: nat) \<in> {9, 10, 11, 12, 13, 32, 160})"

definition digitValue :: "char \<Rightarrow> nat option" where
  "digitValue c =
     (let k = (of_char c :: nat) in
      if 48 \<le> k \<and> k \<le> 57 then Some (k - 48)
      else if 97 \<le> k \<and> k \<le> 122 then Some (k - 87)
      else if 65 \<le> k \<and> k \<le> 90 then Some (k - 55)
      else None)"

definition isRadixDigit :: "nat \<Rightarrow> char \<Rightarrow> bool" where
  "isRadixDigit radix c = (case digitValue c of Some v \<Rightarrow> v < radix | None \<Rightarrow> False)"

definition mathInt :: "nat \<Rightarrow> string \<Rightarrow> nat" where
  "mathInt radix Z =
     foldl (\<lambda>acc c. case digitValue c of Some v \<Rightarrow> acc * radix + v | None \<Rightarrow> acc) 0 Z"

definition parseInt :: "string \<Rightarrow> nat \<Rightarrow> number" where
  "parseInt string radix =
     (let S = dropWhile isWhiteSpace string;
          sign = (if S \<noteq> [] \<and> hd S = CHR ''-'' then - 1 else (1 :: int));
          S1 = (if S \<noteq> [] \<and> (hd S = CHR ''+'' \<or> hd S = CHR ''-'') then tl S else S);
          S2 = (if radix = 16 \<and> (take 2 S1 = ''0x'' \<or> take 2 S1 = ''0X'') then drop 2 S1 else S1);
          Z = takeWhile (isRadixDigit radix) S2
      in if Z = [] then NaN
         else (case toDouble (int (mathInt radix Z)) of
                 Num v \<Rightarrow> Num (sign * v)
               | Infinity \<Rightarrow> (if sign < 0 then NegInfinity else Infinity)
               | x \<Rightarrow> x))"

text \<open>
  \<open>ToInt32\<close>, which the bitwise operators apply to their operands: \<open>NaN\<close> and the
  infinities give 0, an integer is taken modulo \<open>2^32\<close> into the signed range.
\<close>

definition toInt32 :: "number \<Rightarrow> int" where
  "toInt32 x =
     (case x of
        Num n \<Rightarrow> (let m = n mod 2 ^ 32 in if m \<ge> 2 ^ 31 then m - 2 ^ 32 else m)
      | _ \<Rightarrow> 0)"

text \<open>The decimal rendering of an integer in a template string.\<close>

fun decimal :: "nat \<Rightarrow> string" where
  "decimal n = (if n < 10 then [char_of (48 + n)] else decimal (n div 10) @ [char_of (48 + n mod 10)])"

definition numberToString :: "int \<Rightarrow> string" where
  "numberToString n = (if n < 0 then CHR ''-'' # decimal (nat (- n)) else decimal (nat n))"

text \<open>\<open>String.prototype.split\<close> with a one-character separator.\<close>

fun split :: "char \<Rightarrow> string \<Rightarrow> string list" where
  "split sep [] = [[]]"
| "split sep (c # s) =
     (if c = sep then [] # split sep s
      else (case split sep s of p # ps \<Rightarrow> (c # p) # ps | [] \<Rightarrow> [[c]]))"

section \<open>Passive mode (src/transfer.ts)\<close>

text \<open>
  The regular expression of \<open>parsePasvResponse\<close> is
  \<open>/([-\d]+,[-\d]+,[-\d]+,[-\d]+),([-\d]+),([-\d]+)/\<close>. Its character class does not
  contain the comma, so a greedy \<open>[-\d]+\<close> followed by a comma can only succeed on the
  whole run of class characters, and backtracking into a shorter run never helps:
  \<open>pasvRun\<close> takes the whole run. \<open>pasvRuns n\<close> matches \<open>n\<close> runs with a comma between
  each two; \<open>pasvMatchHere\<close> is the match of the six runs attempted at the start of a
  string, with the three groups; \<open>pasvMatch\<close> is \<open>String.prototype.match\<close>, which tries
  the start positions from left to right.
\<close>

definition isPasvChar :: "char \<Rightarrow> bool" where
  "isPasvChar c = (c = CHR ''-'' \<or> (48 \<le> (of_char c :: nat) \<and> (of_char c :: nat) \<le> 57))"

definition pasvRun :: "string \<Rightarrow> (string \<times> string) option" where
  "pasvRun s =
     (let g = takeWhile isPasvChar s in
      if g = [] then None else Some (g, dropWhile isPasvChar s))"

definition pasvComma :: "string \<Rightarrow> string option" where
  "pasvComma s = (case s of c # r \<Rightarrow> if c = CHR '','' then Some r else None | [] \<Rightarrow> None)"

fun pasvRuns :: "nat \<Rightarrow> string \<Rightarrow> (string list \<times> string) option" where
  "pasvRuns 0 s = Some ([], s)"
| "pasvRuns (Suc n) s =
     (case pasvRun s of
        None \<Rightarrow> None
      | Some (g, r) \<Rightarrow>
          if n = 0 then Some ([g], r)
          else (case pasvComma r of
                  None \<Rightarrow> None
                | Some r' \<Rightarrow>
                    (case pasvRuns n r' of
                       None \<Rightarrow> None
                     | Some (gs, r'') \<Rightarrow> Some (g # gs, r''))))"

definition pasvMatchHere :: "string \<Rightarrow> (string \<times> string \<times> string) option" where
  "pasvMatchHere s =
     (case pasvRuns 6 s of
        Some ([h1, h2, h3, h4, p1, p2], _) \<Rightarrow>
          Some (h1 @ '','' @ h2 @ '','' @ h3 @ '','' @ h4, p1, p2)
      | _ \<Rightarrow> None)"

fun pasvMatch :: "string \<Rightarrow> (string \<times> string \<times> string) option" where
  "pasvMatch [] = None"
| "pasvMatch (c # s) =
     (case pasvMatchHere (c # s) of Some g \<Rightarrow> Some g | None \<Rightarrow> pasvMatch s)"

text \<open>\<open>groups[1].replace(/,/g, ".")\<close>.\<close>

definition replaceCommas :: "string \<Rightarrow> string" where
  "replaceCommas s = map (\<lambda>c. if c = CHR '','' then CHR ''.'' else c) s"

text \<open>
  \<open>parsePasvResponse\<close>: the host and the port, or the error it throws. A match always
  has its three groups, so the test \<open>groups.length !== 4\<close> never fires.
\<close>

definition parsePasvResponse :: "string \<Rightarrow> Error + (string \<times> int)" where
  "parsePasvResponse msg =
     (case pasvMatch msg of
        None \<Rightarrow> Inl \<lparr>errMessage = ''Can't parse response to 'PASV': '' @ msg, errCode = None\<rparr>
      | Some (g1, g2, g3) \<Rightarrow>
          Inr (replaceCommas g1,
               (toInt32 (parseInt g2 10) AND 255) * 256 + (toInt32 (parseInt g3 10) AND 255)))"

text \<open>
  \<open>connectForPassiveTransfer\<close>: a new socket \<open>r\<close> (what \<open>ftp._newSocket()\<close> returned) gets
  the context's timeout and is connected to the host and port with the context's
  address family. What the network answers is the outcome. On success a control
  connection that is a TLS socket makes the data socket a TLS socket whose handshake
  is still to come, and the socket becomes the context's data socket; an error rejects
  with its message prefixed; a timeout destroys the socket and rejects.
\<close>

record TcpConnectOpts =
  optPort :: int
  optHost :: string
  optFamily :: "int option"

datatype ConnectOutcome = Connected | ConnectError Error | ConnectTimeout

record Passive =
  pftp :: FTPContext
  pheap :: "sockref \<Rightarrow> Socket"
  connects :: "(sockref \<times> TcpConnectOpts) list"

definition connectForPassiveTransfer ::
  "string \<Rightarrow> int \<Rightarrow> sockref \<Rightarrow> ConnectOutcome \<Rightarrow> Passive \<Rightarrow> Error option \<times> Passive"
where
  "connectForPassiveTransfer host port r outcome p =
     (let p1 = p\<lparr>pheap := setTimeout r (timeout (pftp p)) (pheap p),
                 connects := connects p @
                   [(r, \<lparr>optPort = port, optHost = host, optFamily = ipFamily (pftp p)\<rparr>)]\<rparr>
      in case outcome of
           Connected \<Rightarrow>
             (let h = (if hasGetCipher (pheap p1 (socket (pftp p1)))
                       then (pheap p1)(r := (pheap p1 r)\<lparr>hasGetCipher := True, cipherKnown := False\<rparr>)
                       else pheap p1)
              in (None, p1\<lparr>pheap := h, pftp := (pftp p1)\<lparr>dataSocket := Some r\<rparr>\<rparr>))
         | ConnectError err \<Rightarrow>
             (Some (err\<lparr>errMessage := ''Can't open data connection in passive mode: '' @ errMessage err\<rparr>),
              p1)
         | ConnectTimeout \<Rightarrow>
             (Some \<lparr>errMessage = ''Timeout when trying to open data connection to '' @ host @ '':''
                                  @ numberToString port,
                    errCode = None\<rparr>,
              p1\<lparr>pheap := (pheap p1)(r := (pheap p1 r)\<lparr>destroyed := True\<rparr>)\<rparr>))"

text \<open>
  \<open>enterPassiveModeIPv4\<close>. \<open>ipIsPrivateV4Address\<close> lives in \<open>netUtils.ts\<close>, which is not
  among the sources, and is a parameter. \<open>request\<close> is what \<open>ftp.request("PASV")\<close> gave:
  the error it rejected with or the response. The control host counts when it is
  truthy: defined and not the empty string.
\<close>

definition enterPassiveModeIPv4 ::
  "(string \<Rightarrow> bool) \<Rightarrow> Error + FTPResponse \<Rightarrow> sockref \<Rightarrow> ConnectOutcome \<Rightarrow> Passive
     \<Rightarrow> (Error + FTPResponse) \<times> Passive"
where
  "enterPassiveModeIPv4 ipIsPrivateV4Address request r outcome p =
     (case request of
        Inl err \<Rightarrow> (Inl err, p)
      | Inr res \<Rightarrow>
          (case parsePasvResponse (message res) of
             Inl err \<Rightarrow> (Inl err, p)
           | Inr (host, port) \<Rightarrow>
               (let controlHost = remoteAddress (pheap p (socket (pftp p)));
                    host' = (if ipIsPrivateV4Address host
                                \<and> controlHost \<noteq> None \<and> controlHost \<noteq> Some []
                                \<and> \<not> ipIsPrivateV4Address (the controlHost)
                             then the controlHost else host)
                in case connectForPassiveTransfer host' port r outcome p of
                     (Some err, p') \<Rightarrow> (Inl err, p')
                   | (None, p') \<Rightarrow> (Inr res, p'))))"

text \<open>
  Modelled from the spec: an instance of \<open>ipIsPrivateV4Address\<close> for the examples, the
  RFC1918 ranges the spec lists (10.0.0.0/8, 172.16.0.0/12, 192.168.0.0/16), read off
  the first two octets.
\<close>

definition rfc1918 :: "string \<Rightarrow> bool" where
  "rfc1918 ip =
     (case map (\<lambda>part. parseInt part 10) (split (CHR ''.'') ip) of
        Num a # Num b # _ \<Rightarrow> a = 10 \<or> (a = 172 \<and> 16 \<le> b \<and> b \<le> 31) \<or> (a = 192 \<and> b = 168)
      | _ \<Rightarrow> False)"

definition passive0 :: Passive where
  "passive0 = \<lparr>pftp = ctx0\<lparr>dataSocket := None\<rparr>,
               pheap = heap0(0 := (heap0 0)\<lparr>remoteAddress := Some ''203.0.113.7''\<rparr>),
               connects = []\<rparr>"

declare bitLength.simps [simp del] decimal.simps [simp del]

text \<open>
  A message that contains \<open>h1,h2,h3,h4,p1,p2\<close>: six non-empty runs of class
  characters with single commas between them, somewhere in the message.
\<close>

definition pasvNumber :: "string \<Rightarrow> bool" where
  "pasvNumber g = (g \<noteq> [] \<and> list_all isPasvChar g)"

definition hasPasvGroup :: "string \<Rightarrow> bool" where
  "hasPasvGroup msg =
     (\<exists>pre h1 h2 h3 h4 p1 p2 post.
        msg = pre @ h1 @ '','' @ h2 @ '','' @ h3 @ '','' @ h4 @ '','' @ p1 @ '','' @ p2 @ post
        \<and> pasvNumber h1 \<and> pasvNumber h2 \<and> pasvNumber h3 \<and> pasvNumber h4
        \<and> pasvNumber p1 \<and> pasvNumber p2)"

section \<open>SOCKS5 tunnel (src/proxySocket.ts)\<close>

subsection \<open>The tunnel and the socket it wraps\<close>

text \<open>
  The wrapped \<open>net.Socket\<close> is the tunnel's environment. The model keeps the calls the
  tunnel makes on it, in order, the addresses it reports, and what each \<open>write\<close>
  returns (\<open>writeResult k\<close> for a \<open>write\<close> made after \<open>k\<close> earlier calls). Callbacks, pipe
  destinations and pipe options are opaque and stand as numbers.
\<close>

type_synonym byte = "8 word"

type_synonym Buffer = "byte list"

datatype Chunk = Bytes Buffer | Text string

datatype RealCall =
    RealConnect nat string
  | RealWrite Chunk "string option" "nat option"
  | RealPipe nat "nat option"
  | RealSetEncoding "string option"
  | RealRead "nat option"

type_synonym Addresses = "nat option \<times> string option \<times> nat option \<times> string option"

record RealSocket =
  calls :: "RealCall list"
  writeResult :: "nat \<Rightarrow> bool"
  addresses :: Addresses

text \<open>
  The events the tunnel emits are kept in order in \<open>emitted\<close>; listeners are outside
  the model and are taken not to call back into the tunnel while an event is emitted.
  \<open>exposed\<close> stands for the four fields \<open>localPort\<close>, \<open>localAddress\<close>, \<open>remotePort\<close> and
  \<open>remoteAddress\<close>, which are copied together from the wrapped socket. An exception
  that leaves a handler of the wrapped socket's events is kept in \<open>uncaught\<close>.
\<close>

datatype Event =
    EvData Buffer
  | EvSocksData Buffer
  | EvError Error
  | EvEnd
  | EvTimeout
  | EvClose
  | EvDrain
  | EvReadable
  | EvConnect

record ProxySocket =
  writable :: bool
  exposed :: "Addresses option"
  socksHost :: string
  socksPort :: nat
  realSocket :: RealSocket
  connecting :: bool
  connected :: bool
  connectStage :: nat
  host :: string
  port :: int
  unSent :: "(Chunk \<times> string \<times> nat option) list"
  unPiped :: "(nat \<times> nat option) list"
  realSocketEncoding :: "string option"
  connectListeners :: "nat list"
  emitted :: "Event list"
  uncaught :: "Error list"

definition connectErrors :: "nat \<Rightarrow> string option" where
  "connectErrors k =
     (if k = 0 then Some ''request granted''
      else if k = 1 then Some ''general failure''
      else if k = 2 then Some ''connection not allowed by ruleset''
      else if k = 3 then Some ''network unreachable''
      else if k = 4 then Some ''host unreachable''
      else if k = 5 then Some ''connection refused by destination host''
      else if k = 6 then Some ''TTL expired''
      else if k = 7 then Some ''command not supported / protocol error''
      else if k = 8 then Some ''address type not supported''
      else None)"

definition newProxySocket :: "string \<Rightarrow> nat \<Rightarrow> RealSocket \<Rightarrow> ProxySocket" where
  "newProxySocket sHost sPort real =
     \<lparr>writable = True, exposed = None,
      socksHost = (if sHost = [] then ''localhost'' else sHost),
      socksPort = (if sPort = 0 then 8888 else sPort),
      realSocket = real, connecting = False, connected = False, connectStage = 0,
      host = [], port = 0, unSent = [], unPiped = [],
      realSocketEncoding = Some ''binary'', connectListeners = [], emitted = [], uncaught = []\<rparr>"

definition newError :: "string \<Rightarrow> Error" where
  "newError m = \<lparr>errMessage = m, errCode = None\<rparr>"

definition emit :: "Event \<Rightarrow> ProxySocket \<Rightarrow> ProxySocket" where
  "emit e s = s\<lparr>emitted := emitted s @ [e]\<rparr>"

definition realCall :: "RealCall \<Rightarrow> ProxySocket \<Rightarrow> ProxySocket" where
  "realCall c s = s\<lparr>realSocket := (realSocket s)\<lparr>calls := calls (realSocket s) @ [c]\<rparr>\<rparr>"

definition realWrite :: "Chunk \<Rightarrow> string option \<Rightarrow> nat option \<Rightarrow> ProxySocket \<Rightarrow> bool \<times> ProxySocket" where
  "realWrite d enc cb s =
     (writeResult (realSocket s) (length (calls (realSocket s))), realCall (RealWrite d enc cb) s)"

subsection \<open>The public methods\<close>

text \<open>
  \<open>read\<close> returns \<open>null\<close> (\<open>None\<close>) before the tunnel is connected, and afterwards what the
  wrapped socket's \<open>read\<close> gives, here \<open>answer\<close>.
\<close>

definition read :: "nat option \<Rightarrow> Buffer option \<Rightarrow> ProxySocket \<Rightarrow> Buffer option \<times> ProxySocket" where
  "read n answer s =
     (if \<not> connected s then (None, s) else (answer, realCall (RealRead n) s))"

definition pipe :: "nat \<Rightarrow> nat option \<Rightarrow> ProxySocket \<Rightarrow> ProxySocket" where
  "pipe dest opts s =
     (if connected s then realCall (RealPipe dest opts) s
      else s\<lparr>unPiped := unPiped s @ [(dest, opts)]\<rparr>)"

text \<open>
  \<open>connect(port, host, listener?)\<close> and \<open>connect(options, listener?)\<close>. The error is what
  the call throws; nothing has been changed when it throws.
\<close>

datatype ConnectArgs =
    PortHost int string "nat option"
  | ConnectOpts "string option" int "nat option"

definition connect :: "ConnectArgs \<Rightarrow> ProxySocket \<Rightarrow> ProxySocket \<times> Error option" where
  "connect args s =
     (if connected s then (s, Some (newError ''realSocket is already connected''))
      else if connecting s then (s, Some (newError ''realSocket is already connecting''))
      else
        (let s1 = (case args of
                     PortHost p h listener \<Rightarrow>
                       s\<lparr>host := h, port := p,
                         connectListeners := connectListeners s @ (case listener of Some l \<Rightarrow> [l] | None \<Rightarrow> [])\<rparr>
                   | ConnectOpts h p listener \<Rightarrow>
                       s\<lparr>host := (case h of Some x \<Rightarrow> x | None \<Rightarrow> []), port := p,
                         connectListeners := connectListeners s @ (case listener of Some l \<Rightarrow> [l] | None \<Rightarrow> [])\<rparr>);
             s2 = s1\<lparr>connected := False, connecting := True\<rparr>
         in (realCall (RealConnect (socksPort s2) (socksHost s2)) s2, None)))"

text \<open>
  \<open>writeTunnel\<close> is the method \<open>write\<close>. It returns nothing (\<open>None\<close>) when it buffers,
  and otherwise what the wrapped socket's \<open>write\<close> returns.
\<close>

definition writeTunnel :: "Chunk \<Rightarrow> string option \<Rightarrow> nat option \<Rightarrow> ProxySocket \<Rightarrow> bool option \<times> ProxySocket" where
  "writeTunnel str encoding cb s =
     (let enc = (case encoding of None \<Rightarrow> ''binary'' | Some e \<Rightarrow> e) in
      if \<not> connected s then (None, s\<lparr>unSent := unSent s @ [(str, enc, cb)]\<rparr>)
      else (case realWrite str (Some enc) cb s of (b, s') \<Rightarrow> (Some b, s')))"

definition setEncoding :: "string option \<Rightarrow> ProxySocket \<Rightarrow> ProxySocket" where
  "setEncoding encoding s =
     (if connected s then realCall (RealSetEncoding encoding) s
      else s\<lparr>realSocketEncoding := encoding\<rparr>)"

subsection \<open>The CONNECT request\<close>

text \<open>
  The request is built as an array of numbers and turned into bytes by \<open>Buffer.from\<close>,
  which takes every entry modulo 256 and \<open>NaN\<close> and the infinities to 0.
\<close>

definition toUint8 :: "number \<Rightarrow> byte" where
  "toUint8 x = (case x of Num n \<Rightarrow> word_of_int n | _ \<Rightarrow> 0)"

definition parseDomainName :: "string \<Rightarrow> number list \<Rightarrow> number list" where
  "parseDomainName h buffer =
     buffer @ [Num (int (length h))] @ map (\<lambda>c. Num (int (of_char c))) h"

definition parseIPv4 :: "string \<Rightarrow> number list \<Rightarrow> number list" where
  "parseIPv4 h buffer = buffer @ map (\<lambda>part. parseInt part 10) (split (CHR ''.'') h)"

text \<open>
  \<open>parseIPv6\<close>: an empty first or last part becomes \<open>0000\<close>; the first part that is
  still empty is replaced by \<open>8 - parts.length + 1\<close> parts \<open>0000\<close>; then the first eight
  parts are read as hexadecimal, a missing part giving \<open>NaN\<close>. \<open>num / 256 | 0\<close> truncates
  towards zero and \<open>num % 256\<close> has the sign of \<open>num\<close>.
\<close>

definition orZeros :: "string \<Rightarrow> string" where
  "orZeros part = (if part = [] then ''0000'' else part)"

fun indexOfEmpty :: "string list \<Rightarrow> nat option" where
  "indexOfEmpty [] = None"
| "indexOfEmpty (p # ps) =
     (if p = [] then Some 0 else map_option Suc (indexOfEmpty ps))"

definition expandParts :: "string list \<Rightarrow> string list" where
  "expandParts parts =
     (let parts1 = (case parts of [] \<Rightarrow> [] | p # ps \<Rightarrow> orZeros p # ps);
          parts2 = (if parts1 = [] then [] else butlast parts1 @ [orZeros (last parts1)])
      in case indexOfEmpty parts2 of
           None \<Rightarrow> parts2
         | Some ind \<Rightarrow>
             take ind parts2 @ replicate (nat (8 - int (length parts2) + 1)) ''0000''
               @ drop (ind + 1) parts2)"

definition highByte :: "number \<Rightarrow> number" where
  "highByte num =
     (case num of
        Num n \<Rightarrow> Num (toInt32 (Num (if 0 \<le> n then n div 256 else - ((- n) div 256))))
      | _ \<Rightarrow> Num 0)"

definition lowByte :: "number \<Rightarrow> number" where
  "lowByte num =
     (case num of
        Num n \<Rightarrow> Num (if 0 \<le> n then n mod 256 else - ((- n) mod 256))
      | _ \<Rightarrow> NaN)"

definition parseIPv6 :: "string \<Rightarrow> number list \<Rightarrow> number list" where
  "parseIPv6 h buffer =
     (let parts = expandParts (split (CHR '':'') h) in
      buffer @ concat (map (\<lambda>i. let num = (if i < length parts then parseInt (parts ! i) 16 else NaN)
                                  in [highByte num, lowByte num]) [0..<8]))"

text \<open>
  An assignment \<open>b[i] = x\<close> to an array: inside the array it replaces the entry, at its
  end it appends, and beyond it the entries in between are holes, which read as
  \<open>undefined\<close> and become 0 in a buffer like \<open>NaN\<close>.
\<close>

definition setIndex :: "number list \<Rightarrow> nat \<Rightarrow> number \<Rightarrow> number list" where
  "setIndex b i x =
     (if i < length b then b[i := x] else b @ replicate (i - length b) NaN @ [x])"

definition htons :: "number list \<Rightarrow> nat \<Rightarrow> int \<Rightarrow> number list" where
  "htons b i v =
     setIndex (setIndex b i (Num (255 AND drop_bit 8 (toInt32 (Num v)))))
       (i + 1) (Num (255 AND toInt32 (Num v)))"

definition sendAuth :: "ProxySocket \<Rightarrow> ProxySocket \<times> Error option" where
  "sendAuth s =
     (case realWrite (Bytes [5, 1, 0]) None None s of
        (ok, s') \<Rightarrow>
          if \<not> ok then (s', Some (newError ''Unable to write to socks5 proxy socket''))
          else (s', None))"

text \<open>
  \<open>net.isIP\<close> belongs to the platform and is a parameter: it gives 4 for an IPv4
  literal, 6 for an IPv6 literal and 0 for anything else.
\<close>

definition connectRequest :: "(string \<Rightarrow> nat) \<Rightarrow> string \<Rightarrow> int \<Rightarrow> Buffer" where
  "connectRequest isIP h p =
     (let buffer = [Num 5, Num 1, Num 0];
          buffer1 = (if isIP h = 4 then parseIPv4 h (buffer @ [Num 1])
                     else if isIP h = 6 then parseIPv6 h (buffer @ [Num 4])
                     else parseDomainName h (buffer @ [Num 3]));
          buffer2 = htons buffer1 (length buffer1) p
      in map toUint8 buffer2)"

definition sendConnect :: "(string \<Rightarrow> nat) \<Rightarrow> ProxySocket \<Rightarrow> ProxySocket \<times> Error option" where
  "sendConnect isIP s =
     (case realWrite (Bytes (connectRequest isIP (host s) (port s))) None None s of
        (ok, s') \<Rightarrow>
          if \<not> ok then (s', Some (newError ''Unable to write to socks5 proxy socket''))
          else (s', None))"

subsection \<open>The replies of the proxy\<close>

text \<open>\<open>data[i]\<close> of a buffer is \<open>undefined\<close> (\<open>None\<close>) beyond its end.\<close>

definition byteAt :: "Buffer \<Rightarrow> nat \<Rightarrow> byte option" where
  "byteAt data i = (if i < length data then Some (data ! i) else None)"

definition showByte :: "byte option \<Rightarrow> string" where
  "showByte b = (case b of None \<Rightarrow> ''undefined'' | Some x \<Rightarrow> numberToString (uint x))"

definition receiveSocksAuth :: "(string \<Rightarrow> nat) \<Rightarrow> Buffer \<Rightarrow> ProxySocket \<Rightarrow> ProxySocket \<times> Error option" where
  "receiveSocksAuth isIP data s =
     (let error =
            (if length data \<noteq> 2
             then Some (newError ''Socks5 authentication failed. Unexpected number of bytes received.'')
             else if byteAt data 0 \<noteq> Some 5
             then Some (newError (''Socks5 authentication failed. Unexpected socks version number: ''
                                   @ showByte (byteAt data 0) @ ''.''))
             else if byteAt data 1 \<noteq> Some 0
             then Some (newError (''Socks5 authentication failed. Unexpected socks authentication method: ''
                                   @ showByte (byteAt data 1) @ ''.''))
             else None)
      in case error of
           Some e \<Rightarrow> (emit (EvError e) s, None)
         | None \<Rightarrow> sendConnect isIP s)"

text \<open>
  The two loops of \<open>receiveSocksConnect\<close> take the head of a queue and hand it to
  \<open>write\<close> or \<open>pipe\<close> until the queue is empty. Whether they come to an end depends on
  those methods not queueing again, so the loops are partial functions.
\<close>

partial_function (option) flushUnSent :: "ProxySocket \<Rightarrow> ProxySocket option" where
  "flushUnSent s =
     (case unSent s of
        [] \<Rightarrow> Some s
      | x # rest \<Rightarrow>
          flushUnSent (snd (writeTunnel (fst x) (Some (fst (snd x))) (snd (snd x)) (s\<lparr>unSent := rest\<rparr>))))"

partial_function (option) flushUnPiped :: "ProxySocket \<Rightarrow> ProxySocket option" where
  "flushUnPiped s =
     (case unPiped s of
        [] \<Rightarrow> Some s
      | x # rest \<Rightarrow> flushUnPiped (pipe (fst x) (snd x) (s\<lparr>unPiped := rest\<rparr>)))"

definition connectReplyError :: "Buffer \<Rightarrow> Error option" where
  "connectReplyError data =
     (let socksVersion = byteAt data 0;
          responseCode = byteAt data 1;
          reserved = byteAt data 2
      in if socksVersion \<noteq> Some 5
         then Some (newError (''Socks version not supported: '' @ showByte socksVersion @ ''.''))
         else if responseCode \<noteq> Some 0
         then Some (newError (''Socks5 connection failed with response code: ''
                 @ (case responseCode of
                      None \<Rightarrow> ''undefined''
                    | Some c \<Rightarrow> (case connectErrors (unat c) of None \<Rightarrow> ''undefined'' | Some m \<Rightarrow> m))
                 @ ''.''))
         else if reserved \<noteq> Some 0
         then Some (newError (''Socks5 response has invalid reserved field: '' @ showByte reserved
                 @ ''. It must be 0x00.''))
         else None)"

definition receiveSocksConnect :: "Buffer \<Rightarrow> ProxySocket \<Rightarrow> ProxySocket option" where
  "receiveSocksConnect data s =
     (case connectReplyError data of
        Some e \<Rightarrow> Some (emit (EvError e) s)
      | None \<Rightarrow>
          do {
            let s1 = s\<lparr>connected := True, exposed := Some (addresses (realSocket s))\<rparr>;
            let s2 = setEncoding (realSocketEncoding s1) s1;
            s3 \<leftarrow> flushUnSent s2;
            s4 \<leftarrow> flushUnPiped s3;
            Some (emit EvConnect s4)
          })"

text \<open>
  \<open>receiveSocksConnectData\<close>. An exception from \<open>sendConnect\<close> leaves the stage where
  it was and skips the rest. A buffer is always truthy, so the last test is on
  \<open>connected\<close> alone.
\<close>

definition receiveSocksConnectData ::
  "(string \<Rightarrow> nat) \<Rightarrow> Buffer \<Rightarrow> ProxySocket \<Rightarrow> (ProxySocket \<times> Error option) option"
where
  "receiveSocksConnectData isIP data s =
     do {
       (s1, thrown) \<leftarrow>
         (if connectStage s = 0
          then (case receiveSocksAuth isIP data s of
                  (s', Some e) \<Rightarrow> Some (s', Some e)
                | (s', None) \<Rightarrow> Some (s'\<lparr>connectStage := connectStage s' + 1\<rparr>, None))
          else map_option (\<lambda>s'. (s', None)) (receiveSocksConnect data s));
       (case thrown of
          Some e \<Rightarrow> Some (s1, Some e)
        | None \<Rightarrow> Some (if connected s1 then emit (EvData data) s1 else s1, None))
     }"

subsection \<open>The handlers of the wrapped socket's events\<close>

datatype RealEvent =
    OnConnect
  | OnData Buffer
  | OnError Error
  | OnEnd
  | OnTimeout
  | OnClose
  | OnDrain
  | OnReadable

definition escaped :: "ProxySocket \<times> Error option \<Rightarrow> ProxySocket" where
  "escaped r = (case r of (s, None) \<Rightarrow> s | (s, Some e) \<Rightarrow> s\<lparr>uncaught := uncaught s @ [e]\<rparr>)"

fun realEvent :: "(string \<Rightarrow> nat) \<Rightarrow> RealEvent \<Rightarrow> ProxySocket \<Rightarrow> ProxySocket option" where
  "realEvent isIP OnConnect s = Some (escaped (sendAuth (s\<lparr>connecting := False\<rparr>)))"
| "realEvent isIP (OnData buffer) s =
     (if connected s then Some (emit (EvData buffer) s)
      else map_option escaped (receiveSocksConnectData isIP buffer (emit (EvSocksData buffer) s)))"
| "realEvent isIP (OnError e) s = Some (emit (EvError e) s)"
| "realEvent isIP OnEnd s = Some (emit EvEnd (s\<lparr>writable := False\<rparr>))"
| "realEvent isIP OnTimeout s = Some (emit EvTimeout s)"
| "realEvent isIP OnClose s =
     (let s1 = s\<lparr>writable := False\<rparr> in Some (if connected s1 then emit EvClose s1 else s1))"
| "realEvent isIP OnDrain s = Some (if connected s then emit EvDrain s else s)"
| "realEvent isIP OnReadable s =
     (let s1 = realCall (RealRead None) s in Some (if connected s1 then emit EvReadable s1 else s1))"

fun realEvents :: "(string \<Rightarrow> nat) \<Rightarrow> RealEvent list \<Rightarrow> ProxySocket \<Rightarrow> ProxySocket option" where
  "realEvents isIP [] s = Some s"
| "realEvents isIP (ev # evs) s = Option.bind (realEvent isIP ev s) (realEvents isIP evs)"




subsection \<open>Queues, the transition and examples\<close>

text \<open>
  The calls on the wrapped socket that a buffered write and a pending pipe turn into,
  and what a list of calls by the user leaves in the two queues of a tunnel that is
  not connected.
\<close>

definition toRealWrite :: "Chunk \<times> string \<times> nat option \<Rightarrow> RealCall" where
  "toRealWrite x = RealWrite (fst x) (Some (fst (snd x))) (snd (snd x))"

definition toRealPipe :: "nat \<times> nat option \<Rightarrow> RealCall" where
  "toRealPipe x = RealPipe (fst x) (snd x)"



text \<open>What an accepted CONNECT reply does to a tunnel that is not yet connected.\<close>

definition established :: "ProxySocket \<Rightarrow> ProxySocket" where
  "established s =
     s\<lparr>connected := True,
       exposed := Some (addresses (realSocket s)),
       unSent := [],
       unPiped := [],
       realSocket := (realSocket s)\<lparr>calls := calls (realSocket s)
          @ [RealSetEncoding (realSocketEncoding s)]
          @ map toRealWrite (unSent s) @ map toRealPipe (unPiped s)\<rparr>,
       emitted := emitted s @ [EvConnect]\<rparr>"

text \<open>The events that carry payload or announce the connection: \<open>data\<close> and \<open>connect\<close>.\<close>

definition isPayload :: "Event \<Rightarrow> bool" where
  "isPayload e = (case e of EvData _ \<Rightarrow> True | EvConnect \<Rightarrow> True | _ \<Rightarrow> False)"

text \<open>
  A wrapped socket whose writes all succeed, a \<open>net.isIP\<close> that knows no literal, a
  tunnel on which \<open>connect(21, "example.org")\<close> was called, the same tunnel after the
  TCP connection to the proxy and the proxy's greeting reply \<open>05 00\<close>, and a CONNECT
  reply that grants the request.
\<close>

definition real0 :: RealSocket where
  "real0 = \<lparr>calls = [], writeResult = (\<lambda>_. True),
            addresses = (Some 50000, Some ''127.0.0.1'', Some 1080, Some ''127.0.0.1'')\<rparr>"

definition noIP :: "string \<Rightarrow> nat" where
  "noIP h = 0"

definition connecting0 :: ProxySocket where
  "connecting0 = fst (connect (PortHost 21 ''example.org'' None) (newProxySocket ''127.0.0.1'' 1080 real0))"

definition greeted0 :: ProxySocket where
  "greeted0 = (case realEvents noIP [OnConnect, OnData [5, 0]] connecting0 of
                 Some s \<Rightarrow> s | None \<Rightarrow> connecting0)"

definition granted :: Buffer where
  "granted = [5, 0, 0, 1, 0, 0, 0, 0, 0, 0]"

subsection \<open>Notions for the CONNECT request\<close>

text \<open>
  The port as two bytes in network order; an octet of a dotted IPv4 literal (one to
  three decimal digits) and a group of an IPv6 literal (one to four hexadecimal
  digits); groups joined by colons; and the two bytes of a group's value, high byte
  first.
\<close>

definition portBytes :: "int \<Rightarrow> Buffer" where
  "portBytes p = [word_of_int (p div 256), word_of_int p]"

definition octet :: "string \<Rightarrow> bool" where
  "octet a = (a \<noteq> [] \<and> length a \<le> 3 \<and> list_all (isRadixDigit 10) a)"

definition hexGroup :: "string \<Rightarrow> bool" where
  "hexGroup g = (g \<noteq> [] \<and> length g \<le> 4 \<and> list_all (isRadixDigit 16) g)"

fun joinColon :: "string list \<Rightarrow> string" where
  "joinColon [] = []"
| "joinColon [g] = g"
| "joinColon (g # gs) = g @ '':'' @ joinColon gs"

definition be16 :: "nat \<Rightarrow> Buffer" where
  "be16 v = [of_nat (v div 256), of_nat (v mod 256)]"

section \<open>Properties\<close>

subsection \<open>TransferResolver\<close>

text \<open>
  C2. A fresh resolver that receives \<open>onDataDone\<close> and \<open>onControlDone r\<close>, in either order,
  has resolved nothing after the first of them and has resolved the task exactly once,
  with \<open>r\<close>, after the second; the context's data-socket reference is untouched after
  the first and cleared after the second. For any state of the resolver, either signal
  resolves exactly when afterwards \<open>dataTransferDone\<close> holds and a response is recorded:
  it then adds one \<open>resolve\<close> with the recorded response to the calls on the task and
  clears the data-socket reference, and otherwise adds nothing and leaves the reference.
\<close>

theorem resolver_resolves_once:
  "task (signals [DataDone] (newTransfer c h)) = []
   \<and> dataSocket (ftp (signals [DataDone] (newTransfer c h))) = dataSocket c
   \<and> task (signals [DataDone, ControlDone r] (newTransfer c h)) = [Resolve r]
   \<and> dataSocket (ftp (signals [DataDone, ControlDone r] (newTransfer c h))) = None
   \<and> task (signals [ControlDone r] (newTransfer c h)) = []
   \<and> dataSocket (ftp (signals [ControlDone r] (newTransfer c h))) = dataSocket c
   \<and> task (signals [ControlDone r, DataDone] (newTransfer c h)) = [Resolve r]
   \<and> dataSocket (ftp (signals [ControlDone r, DataDone] (newTransfer c h))) = None
   \<and> (let t' = signal e t in
        if dataTransferDone t' \<and> response t' \<noteq> None
        then task t' = task t @ [Resolve (the (response t'))] \<and> dataSocket (ftp t') = None
        else task t' = task t \<and> dataSocket (ftp t') = dataSocket (ftp t))
   \<and> response (signal (ControlDone r) t) = Some r"
  by (cases e)
    (simp_all add: newTransfer_def signals_def onDataDone_def onControlDone_def tryResolve_def
      Let_def split: option.splits)

theorem resolver_resolves_once_witness:
  "task (signals [ControlDone res226, DataDone] (newTransfer ctx0 heap0)) = [Resolve res226]
   \<and> dataSocket (ftp (signals [ControlDone res226, DataDone] (newTransfer ctx0 heap0))) = None"
  using resolver_resolves_once [of ctx0 heap0 res226 DataDone "newTransfer ctx0 heap0"]
  by simp

text \<open>
  C8. With a data socket \<open>d\<close> in the context, \<open>onDataStart\<close> returns normally, leaves
  the context's own fields as they are, sets the timeout of the control socket to 0 and
  that of \<open>d\<close> to the configured timeout, and changes nothing else of any socket.
  \<open>onDataDone\<close> sets the timeout of the control socket to the configured timeout and
  that of \<open>d\<close> to 0 and changes nothing else of any socket; it leaves the context's
  fields as they are when no control response is recorded yet, and when one is, the
  only field of the context it changes is the data-socket reference, which it clears.
\<close>

theorem timeout_ownership:
  assumes "dataSocket (ftp t) = Some d" and "d \<noteq> socket (ftp t)"
  shows "(\<exists>t'. onDataStart name type t = Inr t'
            \<and> ftp t' = ftp t
            \<and> heap t' = (heap t)(socket (ftp t) := (heap t (socket (ftp t)))\<lparr>sockTimeout := 0\<rparr>,
                                  d := (heap t d)\<lparr>sockTimeout := timeout (ftp t)\<rparr>))
       \<and> heap (onDataDone t) =
            (heap t)(socket (ftp t) := (heap t (socket (ftp t)))\<lparr>sockTimeout := timeout (ftp t)\<rparr>,
                     d := (heap t d)\<lparr>sockTimeout := 0\<rparr>)
       \<and> ftp (onDataDone t) =
            (if response t = None then ftp t else (ftp t)\<lparr>dataSocket := None\<rparr>)"
  using assms
  by (simp add: onDataStart_def onDataDone_def tryResolve_def setTimeout_def Let_def)

theorem timeout_ownership_witness:
  "dataSocket (ftp (newTransfer ctx0 heap0)) = Some 1 \<and> (1::nat) \<noteq> socket (ftp (newTransfer ctx0 heap0))
   \<and> sockTimeout (heap (onDataDone (newTransfer ctx0 heap0)) 0) = 30000
   \<and> sockTimeout (heap (onDataDone (newTransfer ctx0 heap0)) 1) = 0
   \<and> ftp (onDataDone (newTransfer ctx0 heap0)) = ctx0"
proof -
  have h: "dataSocket (ftp (newTransfer ctx0 heap0)) = Some 1"
    "(1::nat) \<noteq> socket (ftp (newTransfer ctx0 heap0))"
    by (simp_all add: newTransfer_def ctx0_def)
  from timeout_ownership [OF h, of "''a.bin''" "''upload''"]
  have "heap (onDataDone (newTransfer ctx0 heap0)) =
      (heap (newTransfer ctx0 heap0))
        (socket (ftp (newTransfer ctx0 heap0)) :=
           (heap (newTransfer ctx0 heap0) (socket (ftp (newTransfer ctx0 heap0))))
             \<lparr>sockTimeout := timeout (ftp (newTransfer ctx0 heap0))\<rparr>,
         1 := (heap (newTransfer ctx0 heap0) 1)\<lparr>sockTimeout := 0\<rparr>)"
    and "ftp (onDataDone (newTransfer ctx0 heap0)) =
      (if response (newTransfer ctx0 heap0) = None then ftp (newTransfer ctx0 heap0)
       else (ftp (newTransfer ctx0 heap0))\<lparr>dataSocket := None\<rparr>)"
    by blast+
  then show ?thesis
    using h by (simp add: newTransfer_def ctx0_def heap0_def)
qed

text \<open>
  C8 as stated fails when the control response is already recorded: \<open>onDataDone\<close> then
  resolves the transfer and clears the data-socket reference of the context.
\<close>

theorem timeout_ownership_counterexample:
  "dataSocket (ftp (onControlDone res226 (newTransfer ctx0 heap0))) = Some 1
   \<and> dataSocket (ftp (onDataDone (onControlDone res226 (newTransfer ctx0 heap0)))) = None
   \<and> ftp (onDataDone (onControlDone res226 (newTransfer ctx0 heap0)))
       \<noteq> ftp (onControlDone res226 (newTransfer ctx0 heap0))"
  by (simp add: onDataDone_def onControlDone_def tryResolve_def newTransfer_def ctx0_def Let_def)

subsection \<open>Uploads through a SOCKS5 proxy\<close>

lemmas upload_defs = uploadFrom_def uploadHandler_def onConditionOrEvent_def startUpload_def
  onDataStart_def lift_def newUpload_def newTransfer_def
  passThroughWrite_def passThroughEnd_def checkRemoteSize_def pipelineCallback_def
  onDataDone_def onControlDone_def onError_def tryResolve_def setTimeout_def
  positiveCompletion_def positiveIntermediate_def

lemma fold_SourceChunk:
  "i < length (uploads u) \<Longrightarrow> viaSocks (uploads u ! i) \<Longrightarrow>
   fold (uploadStep config) (map (SourceChunk i) ns) u =
     u\<lparr>uploads := (uploads u)[i := (uploads u ! i)\<lparr>translength := translength (uploads u ! i) + sum_list ns\<rparr>]\<rparr>"
proof (induction ns arbitrary: u)
  case Nil
  then show ?case by simp
next
  case (Cons n ns)
  then show ?case
    by (simp add: passThroughWrite_def add.assoc)
qed

lemma startedUpload_state:
  assumes socks: "useSocksProxy config"
    and ready: "code r = 150 \<or> code r = 125"
    and sock: "dataSocket c = Some d"
  shows "uploadFrom config (Res (Inr r) # pendingHandshake c h) (newUpload c h) =
           \<lparr>xfer = (newTransfer c h)
              \<lparr>heap := setTimeout d (timeout c) (setTimeout (socket c) 0 h),
                progress := [ProgressStart d (remotePath config) (transferType config)]\<rparr>,
            uploads = [\<lparr>viaSocks = True, upSocket = d, remoteSizeAlright = False,
                        translength = 0, probes = []\<rparr>],
            deferred = [], thrown = None\<rparr>"
proof (cases "hasGetCipher (h d) \<and> \<not> cipherKnown (h d)")
  case True
  then show ?thesis
    using assms by (auto simp: upload_defs pendingHandshake_def Let_def)
next
  case False
  then show ?thesis
    using assms by (auto simp: upload_defs pendingHandshake_def Let_def)
qed

lemma probedUpload_state:
  assumes socks: "useSocksProxy config"
    and ready: "code r = 150 \<or> code r = 125"
    and sock: "dataSocket c = Some d"
  shows "length (uploads (probedUpload config r ns answer c h)) = 1"
    and "viaSocks (uploads (probedUpload config r ns answer c h) ! 0)"
    and "remoteSizeAlright (uploads (probedUpload config r ns answer c h) ! 0) =
           (serverFileSize answer = sum_list ns)"
    and "ended (heap (xfer (probedUpload config r ns answer c h)) d)"
    and "task (xfer (probedUpload config r ns answer c h)) = []"
    and "response (xfer (probedUpload config r ns answer c h)) = None"
    and "\<not> dataTransferDone (xfer (probedUpload config r ns answer c h))"
proof -
  define u1 where "u1 = uploadFrom config (Res (Inr r) # pendingHandshake c h) (newUpload c h)"
  have u1: "length (uploads u1) = 1" "viaSocks (uploads u1 ! 0)" "translength (uploads u1 ! 0) = 0"
    "probes (uploads u1 ! 0) = []" "upSocket (uploads u1 ! 0) = d" "task (xfer u1) = []"
    "response (xfer u1) = None"
    "\<not> remoteSizeAlright (uploads u1 ! 0)" "\<not> dataTransferDone (xfer u1)"
    unfolding u1_def startedUpload_state[OF assms] by (simp_all add: newTransfer_def)
  define u2 where "u2 = fold (uploadStep config) (map (SourceChunk 0) ns) u1"
  have u2: "u2 = u1\<lparr>uploads := (uploads u1)[0 := (uploads u1 ! 0)\<lparr>translength := sum_list ns\<rparr>]\<rparr>"
    unfolding u2_def using fold_SourceChunk[of 0 u1 config ns] u1 by simp
  have u: "probedUpload config r ns answer c h =
             fold (uploadStep config) [SourceEnd 0, ProbeDone 0 answer] u2"
    by (simp add: probedUpload_def u2_def u1_def uploadFrom_def del: uploadStep.simps)
  show "length (uploads (probedUpload config r ns answer c h)) = 1"
    using u1 by (simp add: u u2 passThroughEnd_def checkRemoteSize_def Let_def)
  show "viaSocks (uploads (probedUpload config r ns answer c h) ! 0)"
    using u1 by (simp add: u u2 passThroughEnd_def checkRemoteSize_def Let_def)
  show "remoteSizeAlright (uploads (probedUpload config r ns answer c h) ! 0) =
           (serverFileSize answer = sum_list ns)"
    using u1 by (simp add: u u2 passThroughEnd_def checkRemoteSize_def Let_def serverFileSize_def)
  show "ended (heap (xfer (probedUpload config r ns answer c h)) d)"
    using u1 by (simp add: u u2 passThroughEnd_def checkRemoteSize_def Let_def)
  show "task (xfer (probedUpload config r ns answer c h)) = []"
    using u1 by (simp add: u u2 passThroughEnd_def checkRemoteSize_def Let_def)
  show "response (xfer (probedUpload config r ns answer c h)) = None"
    using u1 by (simp add: u u2 passThroughEnd_def checkRemoteSize_def Let_def)
  show "\<not> dataTransferDone (xfer (probedUpload config r ns answer c h))"
    using u1 by (simp add: u u2 passThroughEnd_def checkRemoteSize_def Let_def)
qed

text \<open>
  C1, as the code has it. In a proxied upload, after the 150 or 125, the data socket's
  \<open>secureConnect\<close> where the upload waits for it, any chunks of the source, its end
  and the probe's answer, the data socket has been ended. Let the probe have returned
  a size, or the upload be non-empty. Then \<open>remoteSizeAlright\<close> holds exactly when
  \<open>SIZE\<close> returned a size equal to \<open>translength\<close>, the sum of the chunks' lengths, and
  an error \<open>e\<close> the pipeline then reports is taken as data completion (\<open>onDataDone\<close>)
  exactly when its code is \<open>ECONNRESET\<close> and the probe found that size; otherwise
  \<open>onError e\<close> rejects the task with it. A pipeline that ends without an error is
  taken as data completion whatever the probe found. When the probe did not find
  \<open>translength\<close>, every error of the pipeline rejects the task, whether the control
  connection's completion arrives before or after it.
\<close>

theorem socks_upload_error_disposition:
  assumes socks: "useSocksProxy config"
    and ready: "code r = 150 \<or> code r = 125"
    and sock: "dataSocket c = Some d"
    and probe: "answer \<noteq> None \<or> 0 < sum_list ns"
  shows "(let u = probedUpload config r ns answer c h;
              sizeFound = (answer = Some (sum_list ns));
              passed = (errCode e = Some ''ECONNRESET'' \<and> sizeFound)
          in remoteSizeAlright (uploads u ! 0) = sizeFound
           \<and> ended (heap (xfer u) d)
           \<and> uploadStep config (PipelineDone 0 (Some e)) u =
                (if passed then lift onDataDone u else lift (onError e) u)
           \<and> task (xfer (uploadStep config (PipelineDone 0 (Some e)) u)) =
                (if passed then [] else [Reject e])
           \<and> uploadStep config (PipelineDone 0 None) u = lift onDataDone u
           \<and> (\<not> sizeFound \<and> positiveCompletion (code r') \<longrightarrow>
                task (xfer (uploadFrom config [PipelineDone 0 (Some e), Res (Inr r')] u)) = [Reject e]
              \<and> task (xfer (uploadFrom config [Res (Inr r'), PipelineDone 0 (Some e)] u)) = [Reject e]))"
proof -
  note st = probedUpload_state[where config=config and r=r and c=c and d=d and h=h
      and ns=ns and answer=answer, OF socks ready sock]
  let ?u = "probedUpload config r ns answer c h"
  have found: "(serverFileSize answer = sum_list ns) = (answer = Some (sum_list ns))"
  proof (cases answer)
    case None
    have "serverFileSize answer = 0" using None by (simp add: serverFileSize_def)
    moreover have "0 \<noteq> sum_list ns" using probe None by linarith
    ultimately show ?thesis using None by (metis option.distinct(1))
  next
    case (Some n)
    then show ?thesis by (simp add: serverFileSize_def)
  qed
  have flag: "remoteSizeAlright (uploads ?u ! 0) = (answer = Some (sum_list ns))"
    using st(3) found by simp
  have b: "uploadStep config (PipelineDone 0 (Some e)) ?u =
           (if errCode e = Some ''ECONNRESET'' \<and> answer = Some (sum_list ns)
            then lift onDataDone ?u else lift (onError e) ?u)"
    using st(1,2) flag by (simp add: pipelineCallback_def Let_def)
  have kept: "task (xfer (lift onDataDone ?u)) = []"
    using st(5,6) by (simp add: lift_def onDataDone_def tryResolve_def Let_def split: option.splits)
  have rejected: "task (xfer (lift (onError e) ?u)) = [Reject e]"
    using st(5) by (simp add: lift_def onError_def Let_def)
  define passed where "passed \<longleftrightarrow> errCode e = Some ''ECONNRESET'' \<and> answer = Some (sum_list ns)"
  have b': "uploadStep config (PipelineDone 0 (Some e)) ?u =
              (if passed then lift onDataDone ?u else lift (onError e) ?u)"
    unfolding passed_def by (rule b)
  have c': "task (xfer (uploadStep config (PipelineDone 0 (Some e)) ?u)) =
              (if passed then [] else [Reject e])"
    unfolding b' using kept rejected by (cases passed) simp_all
  note c = c'[unfolded passed_def]
  have d: "task (xfer (uploadFrom config [PipelineDone 0 (Some e), Res (Inr r')] ?u)) = [Reject e]"
    if "answer \<noteq> Some (sum_list ns)" "positiveCompletion (code r')"
  proof -
    have "uploadStep config (PipelineDone 0 (Some e)) ?u = lift (onError e) ?u"
      using b that(1) by simp
    moreover have "code r' \<noteq> 150" "code r' \<noteq> 125"
      using that(2) by (auto simp: positiveCompletion_def)
    ultimately show ?thesis using st(5,6,7) that(2)
      by (simp add: uploadFrom_def uploadHandler_def lift_def onError_def onControlDone_def
          tryResolve_def Let_def)
  qed
  have d': "task (xfer (uploadFrom config [Res (Inr r'), PipelineDone 0 (Some e)] ?u)) = [Reject e]"
    if "answer \<noteq> Some (sum_list ns)" "positiveCompletion (code r')"
  proof -
    have n: "code r' \<noteq> 150" "code r' \<noteq> 125"
      using that(2) by (auto simp: positiveCompletion_def)
    define v where "v = uploadStep config (Res (Inr r')) ?u"
    have v: "uploads v = uploads ?u" "task (xfer v) = []"
      using n that(2) st(5,6,7)
      by (simp_all add: v_def uploadHandler_def lift_def onControlDone_def tryResolve_def
          onDataDone_def Let_def)
    have "\<not> remoteSizeAlright (uploads v ! 0)" "0 < length (uploads v)" "viaSocks (uploads v ! 0)"
      using that(1) st(1,2) flag v by simp_all
    then have step: "uploadStep config (PipelineDone 0 (Some e)) v = lift (onError e) v"
      by (simp add: pipelineCallback_def Let_def)
    have eq: "uploadFrom config [Res (Inr r'), PipelineDone 0 (Some e)] ?u =
                uploadStep config (PipelineDone 0 (Some e)) v"
      by (simp add: uploadFrom_def v_def)
    show ?thesis unfolding eq step using v
      by (simp add: lift_def onError_def Let_def)
  qed
  have n: "uploadStep config (PipelineDone 0 None) ?u = lift onDataDone ?u"
    using st(1,2) by (simp add: pipelineCallback_def Let_def)
  show ?thesis
    unfolding Let_def using flag st(4) b c n d d' by simp
qed

theorem socks_upload_error_disposition_witness:
  "useSocksProxy socksConfig \<and> dataSocket ctx0 = Some 1
   \<and> (let u = probedUpload socksConfig res150 [1000, 24] (Some 900) ctx0 heap0
      in \<not> remoteSizeAlright (uploads u ! 0)
       \<and> task (xfer (uploadStep socksConfig (PipelineDone 0 (Some econnreset)) u)) = [Reject econnreset]
       \<and> task (xfer (uploadFrom socksConfig [PipelineDone 0 (Some econnreset), Res (Inr res226)] u))
           = [Reject econnreset])"
proof -
  let ?u = "probedUpload socksConfig res150 [1000, 24] (Some 900) ctx0 heap0"
  have h: "useSocksProxy socksConfig" "code res150 = 150 \<or> code res150 = 125"
    "dataSocket ctx0 = Some 1" "Some (900::nat) \<noteq> None \<or> 0 < sum_list [1000, 24::nat]"
    by (simp_all add: socksConfig_def ctx0_def res150_def)
  note th = socks_upload_error_disposition[where config=socksConfig and c=ctx0 and d=1 and h=heap0
        and r=res150 and ns="[1000, 24]" and answer="Some 900" and e=econnreset
        and r'=res226, OF h, unfolded Let_def]
  have a: "\<not> remoteSizeAlright (uploads ?u ! 0)"
    using th[THEN conjunct1] by simp
  have b: "task (xfer (uploadStep socksConfig (PipelineDone 0 (Some econnreset)) ?u)) = [Reject econnreset]"
    using th[THEN conjunct2, THEN conjunct2, THEN conjunct2, THEN conjunct1]
    by (simp del: uploadStep.simps)
  have c: "task (xfer (uploadFrom socksConfig [PipelineDone 0 (Some econnreset), Res (Inr res226)] ?u))
             = [Reject econnreset]"
    using th[THEN conjunct2, THEN conjunct2, THEN conjunct2, THEN conjunct2, THEN conjunct2]
    by (simp add: positiveCompletion_def res226_def del: uploadStep.simps)
  show ?thesis
    unfolding Let_def using h(1,3) a b c by (intro conjI)
qed

text \<open>
  C1 as stated fails when the pipeline reports no error: a 1024-byte upload whose
  probe found 900 bytes, whose pipeline then completes without error and whose 226
  arrives, resolves the task with the 226, with \<open>remoteSizeAlright\<close> false.
\<close>

theorem socks_upload_error_disposition_counterexample:
  "(let u = uploadFrom socksConfig
              [Res (Inr res150), SourceChunk 0 1024, SourceEnd 0, ProbeDone 0 (Some 900),
               PipelineDone 0 None, Res (Inr res226)]
              (newUpload ctx0 heap0)
    in task (xfer u) = [Resolve res226]
     \<and> translength (uploads u ! 0) = 1024
     \<and> remoteSizeAlright (uploads u ! 0) = False)"
  by (simp add: upload_defs ctx0_def heap0_def socksConfig_def res150_def res226_def Let_def)

text \<open>
  The case the statement above leaves aside: a probe that threw after an empty upload.
  \<open>serverFileSize\<close> keeps its initial 0, which equals \<open>translength\<close>, so the flag is
  set without any size from the server, and a following \<open>ECONNRESET\<close> and 226 resolve
  the task. After a non-empty upload the same probe leaves the flag unset.
\<close>

lemma failed_probe_empty_upload:
  "remoteSizeAlright (uploads (probedUpload socksConfig res150 [] None ctx0 heap0) ! 0)
   \<and> task (xfer (uploadFrom socksConfig [PipelineDone 0 (Some econnreset), Res (Inr res226)]
                   (probedUpload socksConfig res150 [] None ctx0 heap0))) = [Resolve res226]
   \<and> \<not> remoteSizeAlright (uploads (probedUpload socksConfig res150 [1024] None ctx0 heap0) ! 0)"
  by (simp add: probedUpload_def pendingHandshake_def upload_defs ctx0_def heap0_def socksConfig_def
      res150_def res226_def econnreset_def Let_def)

subsection \<open>Passive mode\<close>

lemma pasvRun_append:
  assumes "pasvNumber g" and "rest = [] \<or> \<not> isPasvChar (hd rest)"
  shows "pasvRun (g @ rest) = Some (g, rest)"
proof -
  have all: "\<And>x. x \<in> set g \<Longrightarrow> isPasvChar x"
    using assms(1) by (simp add: pasvNumber_def list_all_iff)
  have t: "takeWhile isPasvChar rest = []" and d: "dropWhile isPasvChar rest = rest"
    using assms(2) by (cases rest; simp)+
  have "takeWhile isPasvChar (g @ rest) = g" "dropWhile isPasvChar (g @ rest) = rest"
    using all t d by (simp_all add: takeWhile_append2 dropWhile_append2)
  then show ?thesis
    using assms(1) by (simp add: pasvRun_def pasvNumber_def)
qed

lemma pasvRun_SomeD:
  assumes "pasvRun s = Some (g, r)"
  shows "s = g @ r" and "pasvNumber g" and "r = [] \<or> \<not> isPasvChar (hd r)"
proof -
  from assms have g: "g = takeWhile isPasvChar s" "r = dropWhile isPasvChar s" "g \<noteq> []"
    by (auto simp: pasvRun_def Let_def split: if_splits)
  show "s = g @ r" using g by simp
  show "pasvNumber g"
    using g by (auto simp: pasvNumber_def list_all_iff dest: set_takeWhileD)
  show "r = [] \<or> \<not> isPasvChar (hd r)"
    using g(2) hd_dropWhile[of isPasvChar s] by auto
qed

lemma pasvRun_None_append:
  assumes "pasvRun s = None" and "s \<noteq> []"
  shows "pasvRun (s @ rest) = None"
  using assms by (cases s) (auto simp: pasvRun_def Let_def split: if_splits)

lemma pasvRuns_length: "pasvRuns n s = Some (gs, r) \<Longrightarrow> length gs = n"
  by (induction n arbitrary: s gs r) (auto split: option.splits if_splits)

lemma pasvRuns_append_None:
  assumes "s \<noteq> []" "\<not> isPasvChar (last s)" "last s \<noteq> CHR '',''" "pasvRuns n s = None"
  shows "pasvRuns n (s @ rest) = None"
  using assms
proof (induction n arbitrary: s)
  case 0
  then show ?case by simp
next
  case (Suc n)
  show ?case
  proof (cases "pasvRun s")
    case None
    then show ?thesis using Suc.prems(1) by (simp add: pasvRun_None_append)
  next
    case (Some a)
    obtain g r where a: "a = (g, r)" by (cases a)
    note D = pasvRun_SomeD[OF Some[unfolded a]]
    have r: "r \<noteq> []"
    proof
      assume "r = []"
      then have "s = g" using D(1) by simp
      then have "isPasvChar (last s)"
        using D(2) Suc.prems(1) by (auto simp: pasvNumber_def list_all_iff)
      then show False using Suc.prems(2) by simp
    qed
    then have nr: "\<not> isPasvChar (hd r)" using D(3) by simp
    have run: "pasvRun (s @ rest) = Some (g, r @ rest)"
      using pasvRun_append[OF D(2), of "r @ rest"] r nr D(1) by simp
    have n0: "n \<noteq> 0" using Suc.prems(4) Some a by (auto split: if_splits)
    show ?thesis
    proof (cases "pasvComma r")
      case None
      then have "pasvComma (r @ rest) = None"
        using r by (cases r) (auto simp: pasvComma_def split: if_splits)
      then show ?thesis using run n0 by simp
    next
      case (Some r')
      then have rr: "r = CHR '','' # r'"
        by (cases r) (auto simp: pasvComma_def split: if_splits)
      have r'ne: "r' \<noteq> []"
      proof
        assume "r' = []"
        then have "last s = CHR '',''" using D(1) rr by simp
        then show False using Suc.prems(3) by simp
      qed
      have last: "last r' = last s" using D(1) rr r'ne by simp
      have "pasvRuns n r' = None"
        using Suc.prems(4) \<open>pasvRun s = Some a\<close> a n0 Some by (auto split: option.splits)
      then have "pasvRuns n (r' @ rest) = None"
        using Suc.IH[of r'] r'ne last Suc.prems(2,3) by simp
      moreover have "pasvComma (r @ rest) = Some (r' @ rest)"
        using rr by (simp add: pasvComma_def)
      ultimately show ?thesis using run n0 by simp
    qed
  qed
qed

lemma pasvMatchHere_None_iff: "pasvMatchHere s = None \<longleftrightarrow> pasvRuns 6 s = None"
proof (cases "pasvRuns 6 s")
  case None
  then show ?thesis by (simp add: pasvMatchHere_def)
next
  case (Some a)
  obtain gs r where a: "a = (gs, r)" by (cases a)
  have "length gs = 6" using pasvRuns_length Some a by blast
  then obtain h1 h2 h3 h4 p1 p2 where "gs = [h1, h2, h3, h4, p1, p2]"
    by (auto simp: length_Suc_conv eval_nat_numeral)
  then show ?thesis using Some a by (simp add: pasvMatchHere_def)
qed

lemma pasvMatch_skip:
  assumes "pasvMatch pre = None" and "pre = [] \<or> (\<not> isPasvChar (last pre) \<and> last pre \<noteq> CHR '','')"
  shows "pasvMatch (pre @ s) = pasvMatch s"
  using assms
proof (induction pre)
  case Nil
  then show ?case by simp
next
  case (Cons c pre)
  from Cons.prems(1) have here: "pasvMatchHere (c # pre) = None" and rest: "pasvMatch pre = None"
    by (auto split: option.splits)
  have l: "\<not> isPasvChar (last (c # pre))" "last (c # pre) \<noteq> CHR '',''"
    using Cons.prems(2) by auto
  have "pasvRuns 6 ((c # pre) @ s) = None"
    using pasvRuns_append_None[of "c # pre" 6 s] l here by (simp add: pasvMatchHere_None_iff)
  then have "pasvMatchHere (c # pre @ s) = None"
    by (simp add: pasvMatchHere_None_iff)
  moreover have "pasvMatch (pre @ s) = pasvMatch s"
    using Cons.IH rest l by (cases "pre = []") auto
  ultimately show ?case by simp
qed

lemma pasvMatchHere_groups:
  assumes "pasvNumber h1" "pasvNumber h2" "pasvNumber h3" "pasvNumber h4" "pasvNumber p1" "pasvNumber p2"
    and "post = [] \<or> \<not> isPasvChar (hd post)"
  shows "pasvMatchHere (h1 @ '','' @ h2 @ '','' @ h3 @ '','' @ h4 @ '','' @ p1 @ '','' @ p2 @ post)
           = Some (h1 @ '','' @ h2 @ '','' @ h3 @ '','' @ h4, p1, p2)"
proof -
  have c: "\<not> isPasvChar (CHR '','')" by (simp add: isPasvChar_def)
  have run: "\<And>g rest. pasvNumber g \<Longrightarrow> pasvRun (g @ CHR '','' # rest) = Some (g, CHR '','' # rest)"
    using pasvRun_append c by simp
  have "pasvRuns 6 (h1 @ '','' @ h2 @ '','' @ h3 @ '','' @ h4 @ '','' @ p1 @ '','' @ p2 @ post)
          = Some ([h1, h2, h3, h4, p1, p2], post)"
    using assms by (simp add: eval_nat_numeral run pasvRun_append pasvComma_def)
  then show ?thesis by (simp add: pasvMatchHere_def)
qed

lemma pasvMatchHere_Nil: "pasvMatchHere [] = None"
  by (simp add: pasvMatchHere_None_iff eval_nat_numeral pasvRun_def)

lemma pasvMatch_here: "pasvMatchHere s = Some g \<Longrightarrow> pasvMatch (pre @ s) \<noteq> None"
proof (induction pre)
  case Nil
  show ?case
  proof (cases s)
    case Nil
    then show ?thesis using \<open>pasvMatchHere s = Some g\<close> pasvMatchHere_Nil by simp
  next
    case (Cons c s')
    then show ?thesis using \<open>pasvMatchHere s = Some g\<close> by simp
  qed
next
  case (Cons c pre)
  then show ?case by (cases "pasvMatchHere (c # pre @ s)") simp_all
qed

lemma pasvMatch_SomeD: "pasvMatch msg = Some g \<Longrightarrow> \<exists>pre s. msg = pre @ s \<and> pasvMatchHere s = Some g"
proof (induction msg)
  case Nil
  then show ?case by simp
next
  case (Cons c msg)
  show ?case
  proof (cases "pasvMatchHere (c # msg)")
    case None
    then have "pasvMatch msg = Some g" using Cons.prems by simp
    then obtain pre s where "msg = pre @ s" "pasvMatchHere s = Some g"
      using Cons.IH by blast
    then have "c # msg = (c # pre) @ s \<and> pasvMatchHere s = Some g" by simp
    then show ?thesis by blast
  next
    case (Some a)
    then have "c # msg = [] @ (c # msg) \<and> pasvMatchHere (c # msg) = Some g"
      using Cons.prems by simp
    then show ?thesis by blast
  qed
qed

lemma pasvComma_SomeD: "pasvComma s = Some r \<Longrightarrow> s = CHR '','' # r"
  by (cases s) (auto simp: pasvComma_def split: if_splits)

lemma pasvRuns_Suc_SomeD:
  assumes "pasvRuns (Suc (Suc n)) s = Some (gs, r)"
  shows "\<exists>g gs' s'. gs = g # gs' \<and> s = g @ '','' @ s' \<and> pasvNumber g \<and> pasvRuns (Suc n) s' = Some (gs', r)"
proof -
  from assms obtain g r1 where run: "pasvRun s = Some (g, r1)"
    by (auto split: option.splits)
  with assms obtain r2 where com: "pasvComma r1 = Some r2"
    by (auto split: option.splits)
  with assms run obtain gs' where rec: "pasvRuns (Suc n) r2 = Some (gs', r)" and gs: "gs = g # gs'"
    by (auto split: option.splits)
  have "s = g @ '','' @ r2" "pasvNumber g"
    using pasvRun_SomeD[OF run] pasvComma_SomeD[OF com] by simp_all
  then show ?thesis using rec gs by blast
qed

lemma pasvRuns_1_SomeD:
  assumes "pasvRuns (Suc 0) s = Some (gs, r)"
  shows "\<exists>g. gs = [g] \<and> s = g @ r \<and> pasvNumber g"
proof -
  from assms obtain g where run: "pasvRun s = Some (g, r)" and gs: "gs = [g]"
    by (auto split: option.splits)
  then show ?thesis using pasvRun_SomeD[OF run] by blast
qed

lemma pasvMatchHere_SomeD:
  assumes "pasvMatchHere s = Some g"
  shows "hasPasvGroup (pre @ s)"
proof -
  from assms obtain gs r where runs: "pasvRuns 6 s = Some (gs, r)"
    by (cases "pasvRuns 6 s") (auto simp: pasvMatchHere_def)
  have six: "(6::nat) = Suc (Suc (Suc (Suc (Suc (Suc 0)))))" by simp
  from runs obtain h1 g1 s1 where 1: "gs = h1 # g1" "s = h1 @ '','' @ s1" "pasvNumber h1"
      "pasvRuns (Suc (Suc (Suc (Suc (Suc 0))))) s1 = Some (g1, r)"
    unfolding six using pasvRuns_Suc_SomeD by blast
  from 1(4) obtain h2 g2 s2 where 2: "g1 = h2 # g2" "s1 = h2 @ '','' @ s2" "pasvNumber h2"
      "pasvRuns (Suc (Suc (Suc (Suc 0)))) s2 = Some (g2, r)"
    using pasvRuns_Suc_SomeD by blast
  from 2(4) obtain h3 g3 s3 where 3: "g2 = h3 # g3" "s2 = h3 @ '','' @ s3" "pasvNumber h3"
      "pasvRuns (Suc (Suc (Suc 0))) s3 = Some (g3, r)"
    using pasvRuns_Suc_SomeD by blast
  from 3(4) obtain h4 g4 s4 where 4: "g3 = h4 # g4" "s3 = h4 @ '','' @ s4" "pasvNumber h4"
      "pasvRuns (Suc (Suc 0)) s4 = Some (g4, r)"
    using pasvRuns_Suc_SomeD by blast
  from 4(4) obtain p1 g5 s5 where 5: "g4 = p1 # g5" "s4 = p1 @ '','' @ s5" "pasvNumber p1"
      "pasvRuns (Suc 0) s5 = Some (g5, r)"
    using pasvRuns_Suc_SomeD by blast
  from 5(4) obtain p2 where 6: "g5 = [p2]" "s5 = p2 @ r" "pasvNumber p2"
    using pasvRuns_1_SomeD by blast
  have "pre @ s = pre @ h1 @ '','' @ h2 @ '','' @ h3 @ '','' @ h4 @ '','' @ p1 @ '','' @ p2 @ r"
    using 1(2) 2(2) 3(2) 4(2) 5(2) 6(2) by simp
  then show ?thesis
    unfolding hasPasvGroup_def using 1(3) 2(3) 3(3) 4(3) 5(3) 6(3) by blast
qed

lemma pasvMatch_iff: "pasvMatch msg \<noteq> None \<longleftrightarrow> hasPasvGroup msg"
proof
  assume "pasvMatch msg \<noteq> None"
  then obtain g where "pasvMatch msg = Some g" by auto
  then obtain pre s where "msg = pre @ s" "pasvMatchHere s = Some g"
    using pasvMatch_SomeD by blast
  then show "hasPasvGroup msg" using pasvMatchHere_SomeD by blast
next
  assume "hasPasvGroup msg"
  then obtain pre h1 h2 h3 h4 p1 p2 post where
    msg: "msg = pre @ h1 @ '','' @ h2 @ '','' @ h3 @ '','' @ h4 @ '','' @ p1 @ '','' @ p2 @ post"
    and n: "pasvNumber h1" "pasvNumber h2" "pasvNumber h3" "pasvNumber h4" "pasvNumber p1" "pasvNumber p2"
    unfolding hasPasvGroup_def by blast
  define p2' where "p2' = p2 @ takeWhile isPasvChar post"
  define post' where "post' = dropWhile isPasvChar post"
  have p2': "pasvNumber p2'"
    using n(6) by (auto simp: p2'_def pasvNumber_def list_all_iff dest: set_takeWhileD)
  have post': "post' = [] \<or> \<not> isPasvChar (hd post')"
    using hd_dropWhile[of isPasvChar post] by (auto simp: post'_def)
  have "p2 @ post = p2' @ post'" by (simp add: p2'_def post'_def)
  then have eq: "msg = pre @ (h1 @ '','' @ h2 @ '','' @ h3 @ '','' @ h4 @ '','' @ p1 @ '','' @ p2' @ post')"
    using msg by simp
  have "pasvMatch (pre @ (h1 @ '','' @ h2 @ '','' @ h3 @ '','' @ h4 @ '','' @ p1 @ '','' @ p2' @ post')) \<noteq> None"
    by (rule pasvMatch_here[OF pasvMatchHere_groups[OF n(1-5) p2' post']])
  then show "pasvMatch msg \<noteq> None"
    unfolding eq .
qed

lemma pasvMatch_Some_here: "pasvMatchHere s = Some g \<Longrightarrow> pasvMatch s = Some g"
  by (cases s) (simp_all add: pasvMatchHere_Nil)

lemma pasvMatch_first:
  assumes "pasvNumber h1" "pasvNumber h2" "pasvNumber h3" "pasvNumber h4" "pasvNumber p1" "pasvNumber p2"
    and "post = [] \<or> \<not> isPasvChar (hd post)"
    and "\<not> hasPasvGroup pre"
    and "pre = [] \<or> (\<not> isPasvChar (last pre) \<and> last pre \<noteq> CHR '','')"
  shows "pasvMatch (pre @ h1 @ '','' @ h2 @ '','' @ h3 @ '','' @ h4 @ '','' @ p1 @ '','' @ p2 @ post)
           = Some (h1 @ '','' @ h2 @ '','' @ h3 @ '','' @ h4, p1, p2)"
proof -
  let ?s = "h1 @ '','' @ h2 @ '','' @ h3 @ '','' @ h4 @ '','' @ p1 @ '','' @ p2 @ post"
  have "pasvMatch pre = None" using assms(8) pasvMatch_iff by blast
  then have "pasvMatch (pre @ ?s) = pasvMatch ?s"
    using assms(9) by (rule pasvMatch_skip)
  also have "pasvMatch ?s = Some (h1 @ '','' @ h2 @ '','' @ h3 @ '','' @ h4, p1, p2)"
    by (rule pasvMatch_Some_here[OF pasvMatchHere_groups[OF assms(1-7)]])
  finally show ?thesis .
qed

lemma replaceCommas_number:
  assumes "pasvNumber g"
  shows "replaceCommas g = g"
proof -
  have "\<not> isPasvChar (CHR '','')" by (simp add: isPasvChar_def)
  then have "\<forall>c \<in> set g. c \<noteq> CHR '',''"
    using assms by (auto simp: pasvNumber_def list_all_iff)
  then show ?thesis
    unfolding replaceCommas_def by (induction g) simp_all
qed

lemma replaceCommas_append: "replaceCommas (a @ b) = replaceCommas a @ replaceCommas b"
  by (simp add: replaceCommas_def)

lemma replaceCommas_Cons:
  "replaceCommas (c # s) = (if c = CHR '','' then CHR ''.'' else c) # replaceCommas s"
  by (simp add: replaceCommas_def)

lemma parsePasvResponse_groups:
  assumes "pasvNumber h1" "pasvNumber h2" "pasvNumber h3" "pasvNumber h4" "pasvNumber p1" "pasvNumber p2"
    and "post = [] \<or> \<not> isPasvChar (hd post)"
    and "\<not> hasPasvGroup pre"
    and "pre = [] \<or> (\<not> isPasvChar (last pre) \<and> last pre \<noteq> CHR '','')"
  shows "parsePasvResponse (pre @ h1 @ '','' @ h2 @ '','' @ h3 @ '','' @ h4 @ '','' @ p1 @ '','' @ p2 @ post)
           = Inr (h1 @ ''.'' @ h2 @ ''.'' @ h3 @ ''.'' @ h4,
                  (toInt32 (parseInt p1 10) AND 255) * 256 + (toInt32 (parseInt p2 10) AND 255))"
proof -
  have "replaceCommas (h1 @ '','' @ h2 @ '','' @ h3 @ '','' @ h4) = h1 @ ''.'' @ h2 @ ''.'' @ h3 @ ''.'' @ h4"
    using assms(1-4) by (simp add: replaceCommas_append replaceCommas_Cons replaceCommas_number)
  then show ?thesis
    unfolding parsePasvResponse_def pasvMatch_first[OF assms] by simp
qed

lemma parsePasvResponse_error:
  "(parsePasvResponse msg = Inl \<lparr>errMessage = ''Can't parse response to 'PASV': '' @ msg, errCode = None\<rparr>)
     = (\<not> hasPasvGroup msg)"
  using pasvMatch_iff[of msg]
  by (cases "pasvMatch msg") (auto simp: parsePasvResponse_def)

lemma no_group_before: "\<not> hasPasvGroup ''227 Entering Passive Mode (''"
  unfolding pasvMatch_iff[symmetric]
  by (simp add: pasvMatchHere_def eval_nat_numeral pasvRun_def pasvComma_def isPasvChar_def)

lemma pasvNumber_simps:
  "pasvNumber ''192''" "pasvNumber ''168''" "pasvNumber ''1''" "pasvNumber ''100''" "pasvNumber ''10''"
  "pasvNumber ''229''" "pasvNumber ''0''" "pasvNumber ''5''" "pasvNumber ''-1''" "pasvNumber ''300''"
  by (simp_all add: pasvNumber_def isPasvChar_def)

lemma parseInt_examples:
  "parseInt ''10'' 10 = Num 10" "parseInt ''229'' 10 = Num 229"
  "parseInt ''-1'' 10 = Num (- 1)" "parseInt ''300'' 10 = Num 300"
  by (simp_all add: parseInt_def isWhiteSpace_def isRadixDigit_def digitValue_def mathInt_def
      toDouble_def Let_def)

text \<open>
  C5. A message that holds \<open>h1,h2,h3,h4,p1,p2\<close>, six non-empty runs of digits and minus
  signs, as its first such group (the text before it holds no group and does not end
  in a digit, a minus sign or a comma, and the text after it does not go on with a
  digit or a minus sign) parses to the host \<open>h1.h2.h3.h4\<close> and the port
  \<open>(p1 & 0xFF) * 256 + (p2 & 0xFF)\<close>, with \<open>p1\<close> and \<open>p2\<close> read by \<open>parseInt\<close>. The reply
  \<open>227 Entering Passive Mode (192,168,1,100,10,229)\<close> gives 192.168.1.100 and 2789.
  The parse throws its error exactly when the message holds no such group.
\<close>

theorem parsePasvResponse_spec:
  assumes "pasvNumber h1" "pasvNumber h2" "pasvNumber h3" "pasvNumber h4" "pasvNumber p1" "pasvNumber p2"
    and "post = [] \<or> \<not> isPasvChar (hd post)"
    and "\<not> hasPasvGroup pre"
    and "pre = [] \<or> (\<not> isPasvChar (last pre) \<and> last pre \<noteq> CHR '','')"
  shows "parsePasvResponse (pre @ h1 @ '','' @ h2 @ '','' @ h3 @ '','' @ h4 @ '','' @ p1 @ '','' @ p2 @ post)
           = Inr (h1 @ ''.'' @ h2 @ ''.'' @ h3 @ ''.'' @ h4,
                  (toInt32 (parseInt p1 10) AND 255) * 256 + (toInt32 (parseInt p2 10) AND 255))
       \<and> parsePasvResponse ''227 Entering Passive Mode (192,168,1,100,10,229)''
           = Inr (''192.168.1.100'', 2789)
       \<and> ((parsePasvResponse msg
              = Inl \<lparr>errMessage = ''Can't parse response to 'PASV': '' @ msg, errCode = None\<rparr>)
            = (\<not> hasPasvGroup msg))"
proof -
  have "parsePasvResponse (''227 Entering Passive Mode ('' @ ''192'' @ '','' @ ''168'' @ '','' @ ''1''
          @ '','' @ ''100'' @ '','' @ ''10'' @ '','' @ ''229'' @ '')'')
        = Inr (''192'' @ ''.'' @ ''168'' @ ''.'' @ ''1'' @ ''.'' @ ''100'',
               (toInt32 (parseInt ''10'' 10) AND 255) * 256 + (toInt32 (parseInt ''229'' 10) AND 255))"
    by (rule parsePasvResponse_groups) (simp_all add: pasvNumber_simps no_group_before isPasvChar_def)
  then have "parsePasvResponse ''227 Entering Passive Mode (192,168,1,100,10,229)''
           = Inr (''192.168.1.100'', 2789)"
    by (simp add: parseInt_examples toInt32_def)
  then show ?thesis
    using parsePasvResponse_groups[OF assms] parsePasvResponse_error by blast
qed

theorem parsePasvResponse_spec_witness:
  "pasvNumber ''10'' \<and> pasvNumber ''0'' \<and> pasvNumber ''5'' \<and> pasvNumber ''-1'' \<and> pasvNumber ''300''
   \<and> \<not> hasPasvGroup ''227 Entering Passive Mode (''
   \<and> parsePasvResponse ''227 Entering Passive Mode (10,0,0,5,-1,300).'' = Inr (''10.0.0.5'', 65324)"
proof -
  have "parsePasvResponse (''227 Entering Passive Mode ('' @ ''10'' @ '','' @ ''0'' @ '','' @ ''0''
          @ '','' @ ''5'' @ '','' @ ''-1'' @ '','' @ ''300'' @ '').'')
        = Inr (''10'' @ ''.'' @ ''0'' @ ''.'' @ ''0'' @ ''.'' @ ''5'',
               (toInt32 (parseInt ''-1'' 10) AND 255) * 256 + (toInt32 (parseInt ''300'' 10) AND 255))"
    using parsePasvResponse_spec[of "''10''" "''0''" "''0''" "''5''" "''-1''" "''300''" "'').''"
        "''227 Entering Passive Mode (''"]
    by (simp add: pasvNumber_simps no_group_before isPasvChar_def)
  then have "parsePasvResponse ''227 Entering Passive Mode (10,0,0,5,-1,300).'' = Inr (''10.0.0.5'', 65324)"
    by (simp add: parseInt_examples toInt32_def)
  then show ?thesis
    by (simp add: pasvNumber_simps no_group_before)
qed

text \<open>
  C4. When the PASV reply parses to a host and a port, the one connection that
  \<open>enterPassiveModeIPv4\<close> opens goes to the parsed port, with the context's address
  family, and to the control connection's remote address if the parsed host is private
  and that address is there (defined and not the empty string) and not private; in
  every other case it goes to the parsed host. When the connection is established the
  new socket is the context's data socket and the PASV response is returned.
\<close>

theorem passive_nat_repair:
  assumes "parsePasvResponse (message res) = Inr (pasvHost, pasvPort)"
  shows "connects (snd (enterPassiveModeIPv4 ipIsPrivateV4Address (Inr res) r outcome p)) =
           connects p @
             [(r, \<lparr>optPort = pasvPort,
                   optHost = (case remoteAddress (pheap p (socket (pftp p))) of
                                Some controlHost \<Rightarrow>
                                  if ipIsPrivateV4Address pasvHost \<and> controlHost \<noteq> []
                                     \<and> \<not> ipIsPrivateV4Address controlHost
                                  then controlHost else pasvHost
                              | None \<Rightarrow> pasvHost),
                   optFamily = ipFamily (pftp p)\<rparr>)]
       \<and> (outcome = Connected \<longrightarrow>
            fst (enterPassiveModeIPv4 ipIsPrivateV4Address (Inr res) r outcome p) = Inr res
            \<and> dataSocket (pftp (snd (enterPassiveModeIPv4 ipIsPrivateV4Address (Inr res) r outcome p))) = Some r)"
  using assms
  by (cases outcome; cases "remoteAddress (pheap p (socket (pftp p)))")
    (simp_all add: enterPassiveModeIPv4_def connectForPassiveTransfer_def Let_def)

lemma rfc1918_examples: "rfc1918 ''10.0.0.5''" "\<not> rfc1918 ''203.0.113.7''"
  by (simp_all add: rfc1918_def parseInt_def isWhiteSpace_def isRadixDigit_def digitValue_def
      mathInt_def toDouble_def Let_def)

lemma parsePasvResponse_private:
  "parsePasvResponse ''227 Entering Passive Mode (10,0,0,5,10,229)'' = Inr (''10.0.0.5'', 2789)"
proof -
  have "parsePasvResponse (''227 Entering Passive Mode ('' @ ''10'' @ '','' @ ''0'' @ '','' @ ''0''
          @ '','' @ ''5'' @ '','' @ ''10'' @ '','' @ ''229'' @ '')'')
        = Inr (''10'' @ ''.'' @ ''0'' @ ''.'' @ ''0'' @ ''.'' @ ''5'',
               (toInt32 (parseInt ''10'' 10) AND 255) * 256 + (toInt32 (parseInt ''229'' 10) AND 255))"
    by (rule parsePasvResponse_groups) (simp_all add: pasvNumber_simps no_group_before isPasvChar_def)
  then show ?thesis
    by (simp add: parseInt_examples toInt32_def)
qed

theorem passive_nat_repair_witness:
  "parsePasvResponse (message \<lparr>code = 227, message = ''227 Entering Passive Mode (10,0,0,5,10,229)''\<rparr>)
     = Inr (''10.0.0.5'', 2789)
   \<and> connects (snd (enterPassiveModeIPv4 rfc1918
        (Inr \<lparr>code = 227, message = ''227 Entering Passive Mode (10,0,0,5,10,229)''\<rparr>) 1 Connected passive0))
     = [(1, \<lparr>optPort = 2789, optHost = ''203.0.113.7'', optFamily = Some 4\<rparr>)]"
proof -
  have h: "parsePasvResponse (message \<lparr>code = 227, message = ''227 Entering Passive Mode (10,0,0,5,10,229)''\<rparr>)
     = Inr (''10.0.0.5'', 2789)"
    by (simp add: parsePasvResponse_private)
  from passive_nat_repair[OF h, of rfc1918 1 Connected passive0]
  have "connects (snd (enterPassiveModeIPv4 rfc1918
        (Inr \<lparr>code = 227, message = ''227 Entering Passive Mode (10,0,0,5,10,229)''\<rparr>) 1 Connected passive0))
     = connects passive0 @
             [(1, \<lparr>optPort = 2789,
                   optHost = (case remoteAddress (pheap passive0 (socket (pftp passive0))) of
                                Some controlHost \<Rightarrow>
                                  if rfc1918 ''10.0.0.5'' \<and> controlHost \<noteq> []
                                     \<and> \<not> rfc1918 controlHost
                                  then controlHost else ''10.0.0.5''
                              | None \<Rightarrow> ''10.0.0.5''),
                   optFamily = ipFamily (pftp passive0)\<rparr>)]"
    by (rule conjunct1)
  then show ?thesis
    using h by (simp add: passive0_def ctx0_def heap0_def rfc1918_examples)
qed

subsection \<open>SOCKS5 tunnel\<close>

lemma flushUnSent_connected:
  "connected s \<Longrightarrow>
   flushUnSent s =
     Some (s\<lparr>unSent := [],
             realSocket := (realSocket s)\<lparr>calls := calls (realSocket s) @ map toRealWrite (unSent s)\<rparr>\<rparr>)"
proof (induction "unSent s" arbitrary: s)
  case Nil
  then show ?case by (subst flushUnSent.simps) simp
next
  case (Cons x rest)
  let ?s' = "snd (writeTunnel (fst x) (Some (fst (snd x))) (snd (snd x)) (s\<lparr>unSent := rest\<rparr>))"
  have s': "?s' = s\<lparr>unSent := rest,
                     realSocket := (realSocket s)\<lparr>calls := calls (realSocket s) @ [toRealWrite x]\<rparr>\<rparr>"
    using Cons.prems by (simp add: writeTunnel_def realWrite_def realCall_def toRealWrite_def)
  have "flushUnSent s = flushUnSent ?s'"
    using Cons.hyps(2)[symmetric] by (subst flushUnSent.simps) simp
  also have "\<dots> = Some (?s'\<lparr>unSent := [],
             realSocket := (realSocket ?s')\<lparr>calls := calls (realSocket ?s') @ map toRealWrite (unSent ?s')\<rparr>\<rparr>)"
    by (rule Cons.hyps(1)) (simp_all add: s' Cons.prems)
  finally show ?case
    using Cons.hyps(2)[symmetric] by (simp add: s')
qed

lemma flushUnPiped_connected:
  "connected s \<Longrightarrow>
   flushUnPiped s =
     Some (s\<lparr>unPiped := [],
             realSocket := (realSocket s)\<lparr>calls := calls (realSocket s) @ map toRealPipe (unPiped s)\<rparr>\<rparr>)"
proof (induction "unPiped s" arbitrary: s)
  case Nil
  then show ?case by (subst flushUnPiped.simps) simp
next
  case (Cons x rest)
  let ?s' = "pipe (fst x) (snd x) (s\<lparr>unPiped := rest\<rparr>)"
  have s': "?s' = s\<lparr>unPiped := rest,
                     realSocket := (realSocket s)\<lparr>calls := calls (realSocket s) @ [toRealPipe x]\<rparr>\<rparr>"
    using Cons.prems by (simp add: pipe_def realCall_def toRealPipe_def)
  have "flushUnPiped s = flushUnPiped ?s'"
    using Cons.hyps(2)[symmetric] by (subst flushUnPiped.simps) simp
  also have "\<dots> = Some (?s'\<lparr>unPiped := [],
             realSocket := (realSocket ?s')\<lparr>calls := calls (realSocket ?s') @ map toRealPipe (unPiped ?s')\<rparr>\<rparr>)"
    by (rule Cons.hyps(1)) (simp_all add: s' Cons.prems)
  finally show ?case
    using Cons.hyps(2)[symmetric] by (simp add: s')
qed

lemma receiveSocksConnect_total:
  "receiveSocksConnect data s =
     Some (case connectReplyError data of
             Some e \<Rightarrow> emit (EvError e) s
           | None \<Rightarrow> established s)"
proof (cases "connectReplyError data")
  case None
  let ?s2 = "setEncoding (realSocketEncoding s)
               (s\<lparr>connected := True, exposed := Some (addresses (realSocket s))\<rparr>)"
  have c: "connected ?s2" by (simp add: setEncoding_def realCall_def)
  let ?s3 = "?s2\<lparr>unSent := [],
             realSocket := (realSocket ?s2)\<lparr>calls := calls (realSocket ?s2) @ map toRealWrite (unSent ?s2)\<rparr>\<rparr>"
  have c3: "connected ?s3" using c by simp
  show ?thesis
    using None
    by (simp add: receiveSocksConnect_def flushUnSent_connected[OF c] flushUnPiped_connected[OF c3])
       (simp add: established_def setEncoding_def realCall_def emit_def)
next
  case (Some e)
  then show ?thesis by (simp add: receiveSocksConnect_def)
qed


lemma OnData_connect_reply:
  assumes "\<not> connected s" and "connectStage s \<noteq> 0"
  shows "realEvent isIP (OnData data) s =
           Some (case connectReplyError data of
                   Some e \<Rightarrow> s\<lparr>emitted := emitted s @ [EvSocksData data, EvError e]\<rparr>
                 | None \<Rightarrow> emit (EvData data) (established (emit (EvSocksData data) s)))"
  using assms
  by (cases "connectReplyError data")
    (simp_all add: receiveSocksConnectData_def receiveSocksConnect_total escaped_def emit_def
      established_def)

lemma connectReplyError_None_iff:
  "connectReplyError data = None \<longleftrightarrow>
     byteAt data 0 = Some 5 \<and> byteAt data 1 = Some 0 \<and> byteAt data 2 = Some 0"
  by (simp add: connectReplyError_def Let_def)

text \<open>
  The two guards of \<open>connect\<close>: on a tunnel whose flag \<open>connected\<close> or \<open>connecting\<close> is
  set it throws, and the tunnel is as it was: no call is made on the wrapped socket
  and no field of the negotiation changes. \<open>connecting\<close> is set by \<open>connect\<close> and cleared
  when the wrapped socket reports the TCP connection to the proxy; \<open>connected\<close> is set
  by the accepted CONNECT reply.
\<close>

lemma connect_guards:
  assumes "connected s \<or> connecting s"
  shows "connect args s =
           (s, Some (newError (if connected s then ''realSocket is already connected''
                               else ''realSocket is already connecting'')))"
  using assms by (auto simp: connect_def)

lemma connect_guards_example:
  "(connected connecting0 \<or> connecting connecting0)
   \<and> calls (realSocket connecting0) = [RealConnect 1080 ''127.0.0.1'']
   \<and> connect (PortHost 21 ''example.org'' None) connecting0
       = (connecting0, Some (newError ''realSocket is already connecting''))"
proof -
  have c: "connecting connecting0" "\<not> connected connecting0"
    "calls (realSocket connecting0) = [RealConnect 1080 ''127.0.0.1'']"
    by (simp_all add: connecting0_def connect_def newProxySocket_def realCall_def real0_def Let_def)
  then have h: "connected connecting0 \<or> connecting connecting0" by simp
  show ?thesis
    using connect_guards[OF h, of "PortHost 21 ''example.org'' None"] c by simp
qed


lemma toInt32_small:
  assumes "- (2 ^ 31) \<le> n" and "n < 2 ^ 31"
  shows "toInt32 (Num n) = n"
proof (cases "0 \<le> n")
  case True
  then have "n mod 2 ^ 32 = n" using assms(2) by (simp add: mod_pos_pos_trivial)
  then show ?thesis using assms(2) by (simp add: toInt32_def Let_def)
next
  case False
  have "n mod 2 ^ 32 = (n + 2 ^ 32) mod 2 ^ 32" by simp
  also have "\<dots> = n + 2 ^ 32"
    by (rule mod_pos_pos_trivial) (use False assms(1) in simp_all)
  finally show ?thesis using False assms(1) by (simp add: toInt32_def Let_def)
qed

lemma connectRequest_example:
  "connectRequest noIP ''example.org'' 21 =
     [5, 1, 0, 3, 11, 101, 120, 97, 109, 112, 108, 101, 46, 111, 114, 103, 0, 21]"
  by (simp add: connectRequest_def noIP_def parseDomainName_def htons_def setIndex_def toUint8_def
      toInt32_small Let_def)

lemma greeted0_fields:
  "\<not> connected greeted0" "connectStage greeted0 = 1" "unSent greeted0 = []" "unPiped greeted0 = []"
  "emitted greeted0 = [EvSocksData [5, 0]]"
  "realSocketEncoding greeted0 = Some ''binary''"
  "calls (realSocket greeted0) =
     [RealConnect 1080 ''127.0.0.1'', RealWrite (Bytes [5, 1, 0]) None None,
      RealWrite (Bytes [5, 1, 0, 3, 11, 101, 120, 97, 109, 112, 108, 101, 46, 111, 114, 103, 0, 21]) None None]"
  by (simp_all add: greeted0_def connecting0_def connect_def newProxySocket_def realCall_def real0_def
      sendAuth_def realWrite_def escaped_def receiveSocksConnectData_def receiveSocksAuth_def
      byteAt_def sendConnect_def connectRequest_example emit_def Let_def)

lemma granted_ok: "connectReplyError granted = None"
  by (simp add: connectReplyError_None_iff byteAt_def granted_def)


lemma greeted0_target:
  "\<not> connecting greeted0" "host greeted0 = ''example.org''" "port greeted0 = 21"
  "socksHost greeted0 = ''127.0.0.1''" "socksPort greeted0 = 1080"
  by (simp_all add: greeted0_def connecting0_def connect_def newProxySocket_def realCall_def real0_def
      sendAuth_def realWrite_def escaped_def receiveSocksConnectData_def receiveSocksAuth_def
      byteAt_def sendConnect_def emit_def Let_def)

text \<open>
  C10. A connection attempt is in progress from the call of \<open>connect\<close> until the
  accepted CONNECT reply, but the flags cover only its two ends: between the TCP
  connection to the proxy and that reply both are false. On the tunnel that has sent
  its CONNECT request for \<open>example.org:21\<close> and awaits the reply, a second
  \<open>connect(22, "other.org")\<close> does not throw: it takes the new target, sets
  \<open>connecting\<close>, and calls \<open>connect\<close> on the wrapped socket again, with the stage of
  the negotiation left at 1.
\<close>

theorem connect_during_negotiation:
  "\<not> connected greeted0 \<and> \<not> connecting greeted0 \<and> connectStage greeted0 = 1
   \<and> host greeted0 = ''example.org'' \<and> port greeted0 = 21
   \<and> snd (connect (PortHost 22 ''other.org'' None) greeted0) = None
   \<and> host (fst (connect (PortHost 22 ''other.org'' None) greeted0)) = ''other.org''
   \<and> port (fst (connect (PortHost 22 ''other.org'' None) greeted0)) = 22
   \<and> connecting (fst (connect (PortHost 22 ''other.org'' None) greeted0))
   \<and> connectStage (fst (connect (PortHost 22 ''other.org'' None) greeted0)) = 1
   \<and> calls (realSocket (fst (connect (PortHost 22 ''other.org'' None) greeted0))) =
        calls (realSocket greeted0) @ [RealConnect 1080 ''127.0.0.1'']"
  by (simp add: connect_def realCall_def greeted0_fields greeted0_target Let_def)

lemma OnData_reply_connected:
  assumes "\<not> connected s" and "connectStage s \<noteq> 0"
  shows "\<exists>s'. realEvent isIP (OnData data) s = Some s'
          \<and> connected s' = (byteAt data 0 = Some 5 \<and> byteAt data 1 = Some 0 \<and> byteAt data 2 = Some 0)"
proof (cases "connectReplyError data")
  case None
  then have "realEvent isIP (OnData data) s = Some (emit (EvData data) (established (emit (EvSocksData data) s)))"
    using OnData_connect_reply[OF assms, of isIP data] by simp
  moreover have "connected (emit (EvData data) (established (emit (EvSocksData data) s)))"
    by (simp add: emit_def established_def)
  ultimately show ?thesis
    using None connectReplyError_None_iff[of data] by (simp del: realEvent.simps)
next
  case (Some e)
  then have "realEvent isIP (OnData data) s = Some (s\<lparr>emitted := emitted s @ [EvSocksData data, EvError e]\<rparr>)"
    using OnData_connect_reply[OF assms, of isIP data] by simp
  moreover have "\<not> (byteAt data 0 = Some 5 \<and> byteAt data 1 = Some 0 \<and> byteAt data 2 = Some 0)"
    using Some connectReplyError_None_iff[of data] by simp
  ultimately show ?thesis using assms(1) by (simp del: realEvent.simps)
qed

text \<open>
  C7, as the code has it. A buffer that arrives while the tunnel awaits the CONNECT
  reply connects the tunnel exactly when its first three bytes are 05, 00, 00.
  Otherwise the tunnel stays unconnected and the only thing that changes is that
  \<open>socksdata\<close> and one \<open>error\<close> are emitted; for version 05 with a reply code other
  than 00 the error's message carries the entry of the reason table for that code
  (\<open>undefined\<close> for a code the table does not have). The error closes nothing: the
  tunnel still awaits a reply, and the next buffer is checked in the same way.
\<close>

theorem connect_reply_checked:
  assumes "\<not> connected s" and "connectStage s \<noteq> 0"
  shows "\<exists>s'. realEvent isIP (OnData data) s = Some s'
          \<and> connected s' = (byteAt data 0 = Some 5 \<and> byteAt data 1 = Some 0 \<and> byteAt data 2 = Some 0)
          \<and> (connected s' \<longrightarrow> s' = emit (EvData data) (established (emit (EvSocksData data) s)))
          \<and> (\<not> connected s' \<longrightarrow>
                (\<exists>e. connectReplyError data = Some e
                    \<and> s' = s\<lparr>emitted := emitted s @ [EvSocksData data, EvError e]\<rparr>))
          \<and> (byteAt data 0 = Some 5 \<and> byteAt data 1 = Some c \<and> c \<noteq> 0 \<longrightarrow>
                connectReplyError data =
                  Some (newError (''Socks5 connection failed with response code: ''
                    @ (case connectErrors (unat c) of Some m \<Rightarrow> m | None \<Rightarrow> ''undefined'') @ ''.'')))
          \<and> (\<not> connected s' \<longrightarrow>
                (\<exists>s''. realEvent isIP (OnData later) s' = Some s''
                    \<and> connected s'' =
                        (byteAt later 0 = Some 5 \<and> byteAt later 1 = Some 0 \<and> byteAt later 2 = Some 0)))"
proof (cases "connectReplyError data")
  case None
  then have "realEvent isIP (OnData data) s = Some (emit (EvData data) (established (emit (EvSocksData data) s)))"
    using OnData_connect_reply[OF assms, of isIP data] by simp
  moreover have "connected (emit (EvData data) (established (emit (EvSocksData data) s)))"
    by (simp add: emit_def established_def)
  moreover have "byteAt data 0 = Some 5 \<and> byteAt data 1 = Some 0 \<and> byteAt data 2 = Some 0"
    using None by (simp add: connectReplyError_None_iff)
  ultimately show ?thesis by auto
next
  case (Some e)
  let ?s' = "s\<lparr>emitted := emitted s @ [EvSocksData data, EvError e]\<rparr>"
  have "realEvent isIP (OnData data) s = Some ?s'"
    using Some OnData_connect_reply[OF assms, of isIP data] by simp
  moreover have "\<not> connected ?s'"
    using assms(1) by simp
  moreover have "\<not> (byteAt data 0 = Some 5 \<and> byteAt data 1 = Some 0 \<and> byteAt data 2 = Some 0)"
    using Some connectReplyError_None_iff[of data] by simp
  moreover have "byteAt data 0 = Some 5 \<and> byteAt data 1 = Some c \<and> c \<noteq> 0 \<longrightarrow>
                connectReplyError data =
                  Some (newError (''Socks5 connection failed with response code: ''
                    @ (case connectErrors (unat c) of Some m \<Rightarrow> m | None \<Rightarrow> ''undefined'') @ ''.''))"
    by (simp add: connectReplyError_def Let_def split: option.splits)
  moreover have "\<exists>s''. realEvent isIP (OnData later) ?s' = Some s''
                    \<and> connected s'' =
                        (byteAt later 0 = Some 5 \<and> byteAt later 1 = Some 0 \<and> byteAt later 2 = Some 0)"
    using OnData_reply_connected[of ?s' isIP later] assms by simp
  ultimately show ?thesis using Some by auto
qed

theorem connect_reply_checked_witness:
  "\<not> connected greeted0 \<and> connectStage greeted0 \<noteq> 0
   \<and> realEvent noIP (OnData [5, 4, 0, 1, 0, 0, 0, 0, 0, 0]) greeted0
       = Some (greeted0\<lparr>emitted := emitted greeted0 @
            [EvSocksData [5, 4, 0, 1, 0, 0, 0, 0, 0, 0],
             EvError (newError ''Socks5 connection failed with response code: host unreachable.'')]\<rparr>)"
proof -
  have h: "\<not> connected greeted0" "connectStage greeted0 \<noteq> 0"
    by (simp_all add: greeted0_fields)
  have b: "byteAt [5, 4, 0, 1, 0, 0, 0, 0, 0, 0] 0 = Some 5" "byteAt [5, 4, 0, 1, 0, 0, 0, 0, 0, 0] 1 = Some 4"
    "byteAt [5, 4, 0, 1, 0, 0, 0, 0, 0, 0] 2 = Some 0"
    by (simp_all add: byteAt_def)
  from connect_reply_checked[where isIP=noIP and data="[5, 4, 0, 1, 0, 0, 0, 0, 0, 0]" and c=4
      and later=granted, OF h]
  obtain s' where 1: "realEvent noIP (OnData [5, 4, 0, 1, 0, 0, 0, 0, 0, 0]) greeted0 = Some s'"
    and 2: "connected s' = (byteAt [5, 4, 0, 1, 0, 0, 0, 0, 0, 0] 0 = Some 5
              \<and> byteAt [5, 4, 0, 1, 0, 0, 0, 0, 0, 0] 1 = Some 0 \<and> byteAt [5, 4, 0, 1, 0, 0, 0, 0, 0, 0] 2 = Some 0)"
    and 3: "\<not> connected s' \<longrightarrow>
                (\<exists>e. connectReplyError [5, 4, 0, 1, 0, 0, 0, 0, 0, 0] = Some e
                    \<and> s' = greeted0\<lparr>emitted := emitted greeted0 @ [EvSocksData [5, 4, 0, 1, 0, 0, 0, 0, 0, 0], EvError e]\<rparr>)"
    and 4: "byteAt [5, 4, 0, 1, 0, 0, 0, 0, 0, 0] 0 = Some 5 \<and> byteAt [5, 4, 0, 1, 0, 0, 0, 0, 0, 0] 1 = Some 4 \<and> (4::byte) \<noteq> 0 \<longrightarrow>
                connectReplyError [5, 4, 0, 1, 0, 0, 0, 0, 0, 0] =
                  Some (newError (''Socks5 connection failed with response code: ''
                    @ (case connectErrors (unat (4::byte)) of Some m \<Rightarrow> m | None \<Rightarrow> ''undefined'') @ ''.''))"
    by blast
  have nc: "\<not> connected s'" using 2 b by simp
  have e: "connectReplyError [5, 4, 0, 1, 0, 0, 0, 0, 0, 0] =
             Some (newError ''Socks5 connection failed with response code: host unreachable.'')"
    using 4 b by (simp add: connectErrors_def)
  have "s' = greeted0\<lparr>emitted := emitted greeted0 @
            [EvSocksData [5, 4, 0, 1, 0, 0, 0, 0, 0, 0],
             EvError (newError ''Socks5 connection failed with response code: host unreachable.'')]\<rparr>"
    using 3 nc e by auto
  then show ?thesis using 1 h by simp
qed

lemma host_unreachable_reply:
  "connectReplyError [5, 4, 0, 1, 0, 0, 0, 0, 0, 0] =
     Some (newError ''Socks5 connection failed with response code: host unreachable.'')"
  by (simp add: connectReplyError_def byteAt_def connectErrors_def Let_def)

text \<open>
  C7 as stated fails in that the error is not terminal: on the tunnel that awaits the
  CONNECT reply, the reply \<open>05 04 00 01 00 00 00 00 00 00\<close> (host unreachable) gives
  the error, and the reply \<open>05 00 00 01 00 00 00 00 00 00\<close> that follows it connects
  the tunnel, which emits \<open>connect\<close>.
\<close>

theorem connect_reply_checked_counterexample:
  "map_option connected
     (realEvents noIP [OnData [5, 4, 0, 1, 0, 0, 0, 0, 0, 0], OnData granted] greeted0) = Some True
   \<and> map_option emitted
       (realEvents noIP [OnData [5, 4, 0, 1, 0, 0, 0, 0, 0, 0], OnData granted] greeted0) =
       Some [EvSocksData [5, 0],
             EvSocksData [5, 4, 0, 1, 0, 0, 0, 0, 0, 0],
             EvError (newError ''Socks5 connection failed with response code: host unreachable.''),
             EvSocksData granted, EvConnect, EvData granted]"
proof -
  let ?s1 = "greeted0\<lparr>emitted := emitted greeted0 @
               [EvSocksData [5, 4, 0, 1, 0, 0, 0, 0, 0, 0],
                EvError (newError ''Socks5 connection failed with response code: host unreachable.'')]\<rparr>"
  have 1: "realEvent noIP (OnData [5, 4, 0, 1, 0, 0, 0, 0, 0, 0]) greeted0 = Some ?s1"
    using OnData_connect_reply[of greeted0 noIP "[5, 4, 0, 1, 0, 0, 0, 0, 0, 0]"]
    by (simp add: greeted0_fields host_unreachable_reply)
  have 2: "realEvent noIP (OnData granted) ?s1 =
             Some (emit (EvData granted) (established (emit (EvSocksData granted) ?s1)))"
    using OnData_connect_reply[of ?s1 noIP granted] by (simp add: greeted0_fields granted_ok)
  have "realEvents noIP [OnData [5, 4, 0, 1, 0, 0, 0, 0, 0, 0], OnData granted] greeted0 =
          Some (emit (EvData granted) (established (emit (EvSocksData granted) ?s1)))"
    using 1 2 by (simp del: realEvent.simps)
  then show ?thesis
    by (simp add: emit_def established_def greeted0_fields)
qed

lemma OnData_greeting:
  assumes "\<not> connected s" and "connectStage s = 0"
  shows "\<exists>s'. realEvent isIP (OnData data) s = Some s' \<and> \<not> connected s'
            \<and> filter isPayload (emitted s') = filter isPayload (emitted s)"
  using assms
  by (auto simp: receiveSocksConnectData_def receiveSocksAuth_def sendConnect_def realWrite_def
      realCall_def emit_def escaped_def isPayload_def Let_def split: option.splits prod.splits)

lemma OnData_reply_payload:
  assumes "\<not> connected s" and "connectStage s \<noteq> 0"
  shows "\<exists>s'. realEvent isIP (OnData data) s = Some s'
            \<and> filter isPayload (emitted s') =
                 filter isPayload (emitted s) @ (if connected s' then [EvConnect, EvData data] else [])"
  unfolding OnData_connect_reply[OF assms]
  using assms(1)
  by (cases "connectReplyError data") (simp_all add: emit_def established_def isPayload_def)

lemma realEvent_step:
  "\<exists>s'. realEvent isIP ev s = Some s'
        \<and> (connected s \<longrightarrow> connected s')
        \<and> (\<not> connected s' \<longrightarrow> filter isPayload (emitted s') = filter isPayload (emitted s))"
proof (cases "connected s")
  case True
  then show ?thesis
    by (cases ev) (simp_all add: emit_def escaped_def sendAuth_def realWrite_def realCall_def Let_def
        split: prod.splits)
next
  case False
  show ?thesis
  proof (cases ev)
    case (OnData data)
    show ?thesis
    proof (cases "connectStage s = 0")
      case True
      then show ?thesis using OnData_greeting[OF False True, of isIP data] OnData False by auto
    next
      case stage: False
      then show ?thesis using OnData_reply_payload[OF False stage, of isIP data] OnData False by auto
    qed
  qed (use False in \<open>simp_all add: emit_def escaped_def sendAuth_def realWrite_def realCall_def
        isPayload_def Let_def split: prod.splits\<close>)
qed

lemma realEvents_append:
  "realEvents isIP (xs @ ys) s = Option.bind (realEvents isIP xs s) (realEvents isIP ys)"
  by (induction xs arbitrary: s) (simp_all split: Option.bind_split)

lemma realEvents_single: "realEvents isIP [ev] s = realEvent isIP ev s"
  by (cases "realEvent isIP ev s") simp_all

lemma realEvents_run:
  "\<exists>s'. realEvents isIP evs s = Some s'
        \<and> (\<not> connected s' \<longrightarrow> filter isPayload (emitted s') = filter isPayload (emitted s))"
proof (induction evs arbitrary: s)
  case Nil
  then show ?case by simp
next
  case (Cons ev evs)
  obtain s1 where 1: "realEvent isIP ev s = Some s1" "connected s \<longrightarrow> connected s1"
    "\<not> connected s1 \<longrightarrow> filter isPayload (emitted s1) = filter isPayload (emitted s)"
    using realEvent_step[of isIP ev s] by blast
  obtain s' where 2: "realEvents isIP evs s1 = Some s'"
    "\<not> connected s' \<longrightarrow> filter isPayload (emitted s') = filter isPayload (emitted s1)"
    using Cons.IH[of s1] by blast
  have mono: "connected s1 \<longrightarrow> connected s'"
    using 2(1)
  proof (induction evs arbitrary: s1)
    case Nil
    then show ?case by simp
  next
    case (Cons e es)
    obtain t where t: "realEvent isIP e s1 = Some t" "connected s1 \<longrightarrow> connected t"
      using realEvent_step[of isIP e s1] by blast
    then have "realEvents isIP es t = Some s'" using Cons.prems by simp
    then show ?case using Cons.IH[of t] t(2) by blast
  qed
  have "realEvents isIP (ev # evs) s = Some s'" using 1(1) 2(1) by simp
  moreover have "\<not> connected s' \<longrightarrow> filter isPayload (emitted s') = filter isPayload (emitted s)"
    using 1(3) 2(2) mono by auto
  ultimately show ?case by blast
qed

text \<open>
  C9, as the code has it. Every sequence of events of the wrapped socket is handled to
  the end, and as long as the tunnel is not connected afterwards no \<open>data\<close> and no
  \<open>connect\<close> event has been emitted. A buffer that arrives before the tunnel is
  connected is never emitted as \<open>data\<close> when it is the greeting reply; a buffer that
  arrives in the CONNECT stage is emitted as \<open>data\<close> exactly when it is the reply that
  connects the tunnel, once, right after \<open>connect\<close>. A buffer that arrives on a
  connected tunnel is emitted as \<open>data\<close> and nothing else happens.
\<close>

theorem payload_only_when_established:
  "(\<exists>t. realEvents isIP evs s = Some t)
   \<and> (realEvents isIP evs s = Some s' \<and> \<not> connected s' \<longrightarrow>
        filter isPayload (emitted s') = filter isPayload (emitted s))
   \<and> (\<not> connected s \<and> realEvent isIP (OnData d) s = Some s1 \<longrightarrow>
        (connectStage s = 0 \<longrightarrow> \<not> connected s1)
        \<and> filter isPayload (emitted s1) =
            filter isPayload (emitted s) @ (if connected s1 then [EvConnect, EvData d] else []))
   \<and> (connected s \<longrightarrow> realEvent isIP (OnData d) s = Some (emit (EvData d) s))"
proof -
  have a: "\<exists>t. realEvents isIP evs s = Some t"
    using realEvents_run[of isIP evs s] by blast
  have b: "realEvents isIP evs s = Some s' \<and> \<not> connected s' \<longrightarrow>
        filter isPayload (emitted s') = filter isPayload (emitted s)"
    using realEvents_run[of isIP evs s] by auto
  have c: "\<not> connected s \<and> realEvent isIP (OnData d) s = Some s1 \<longrightarrow>
        (connectStage s = 0 \<longrightarrow> \<not> connected s1)
        \<and> filter isPayload (emitted s1) =
            filter isPayload (emitted s) @ (if connected s1 then [EvConnect, EvData d] else [])"
  proof (cases "connectStage s = 0")
    case True
    show ?thesis
    proof (intro impI, elim conjE)
      assume n: "\<not> connected s" and e: "realEvent isIP (OnData d) s = Some s1"
      from OnData_greeting[OF n True, of isIP d] e
      show "(connectStage s = 0 \<longrightarrow> \<not> connected s1)
        \<and> filter isPayload (emitted s1) =
            filter isPayload (emitted s) @ (if connected s1 then [EvConnect, EvData d] else [])"
        by auto
    qed
  next
    case False
    show ?thesis
    proof (intro impI, elim conjE)
      assume n: "\<not> connected s" and e: "realEvent isIP (OnData d) s = Some s1"
      from OnData_reply_payload[OF n False, of isIP d] e False
      show "(connectStage s = 0 \<longrightarrow> \<not> connected s1)
        \<and> filter isPayload (emitted s1) =
            filter isPayload (emitted s) @ (if connected s1 then [EvConnect, EvData d] else [])"
        by auto
    qed
  qed
  have d: "connected s \<longrightarrow> realEvent isIP (OnData d) s = Some (emit (EvData d) s)"
    by simp
  show ?thesis using a b c d by blast
qed

theorem payload_only_when_established_witness:
  "realEvents noIP [OnConnect, OnData [5, 0]] connecting0 = Some greeted0
   \<and> \<not> connected greeted0
   \<and> filter isPayload (emitted greeted0) = filter isPayload (emitted connecting0)
   \<and> filter isPayload (emitted greeted0) = []"
proof -
  obtain t where t: "realEvents noIP [OnConnect, OnData [5, 0]] connecting0 = Some t"
    using payload_only_when_established[of noIP "[OnConnect, OnData [5, 0]]" connecting0]
    by blast
  then have g: "greeted0 = t" by (simp add: greeted0_def)
  have n: "\<not> connected greeted0" by (simp add: greeted0_fields)
  have "filter isPayload (emitted greeted0) = filter isPayload (emitted connecting0)"
    using payload_only_when_established[of noIP "[OnConnect, OnData [5, 0]]" connecting0 greeted0]
      t g n by blast
  moreover have "filter isPayload (emitted greeted0) = []"
    by (simp add: greeted0_fields isPayload_def)
  ultimately show ?thesis using t g n by simp
qed

text \<open>
  C9 as stated fails for the CONNECT reply that is accepted: after the greeting reply
  \<open>05 00\<close> and the reply \<open>05 00 00 01 00 00 00 00 00 00\<close> the tunnel has emitted that
  reply as \<open>data\<close>.
\<close>

theorem payload_only_when_established_counterexample:
  "map_option emitted (realEvents noIP [OnConnect, OnData [5, 0], OnData granted] connecting0)
     = Some [EvSocksData [5, 0], EvSocksData granted, EvConnect, EvData granted]"
proof -
  have 1: "realEvents noIP [OnConnect, OnData [5, 0]] connecting0 = Some greeted0"
    using realEvents_run[of noIP "[OnConnect, OnData [5, 0]]" connecting0]
    by (auto simp: greeted0_def)
  have "realEvents noIP ([OnConnect, OnData [5, 0]] @ [OnData granted]) connecting0
          = realEvent noIP (OnData granted) greeted0"
    unfolding realEvents_append 1 by (simp add: realEvents_single del: realEvents.simps)
  also have "\<dots> = Some (emit (EvData granted) (established (emit (EvSocksData granted) greeted0)))"
    using OnData_connect_reply[of greeted0 noIP granted] by (simp add: greeted0_fields granted_ok)
  finally have "realEvents noIP [OnConnect, OnData [5, 0], OnData granted] connecting0
      = Some (emit (EvData granted) (established (emit (EvSocksData granted) greeted0)))"
    by simp
  then show ?thesis
    by (simp add: emit_def established_def greeted0_fields)
qed

subsection \<open>The CONNECT request\<close>

lemma toInt32_cong: "\<exists>j. toInt32 (Num v) = v + j * 2 ^ 32"
proof -
  have m: "v mod 2 ^ 32 = v + (- (v div 2 ^ 32)) * 2 ^ 32"
    by (simp add: minus_div_mult_eq_mod [symmetric])
  show ?thesis
  proof (cases "v mod 2 ^ 32 \<ge> 2 ^ 31")
    case True
    then have "toInt32 (Num v) = v + (- (v div 2 ^ 32) - 1) * 2 ^ 32"
      using m by (simp add: toInt32_def Let_def algebra_simps)
    then show ?thesis by blast
  next
    case False
    then have "toInt32 (Num v) = v + (- (v div 2 ^ 32)) * 2 ^ 32"
      using m by (simp add: toInt32_def Let_def)
    then show ?thesis by blast
  qed
qed

lemma byte_of_and_255: "(word_of_int (255 AND x) :: byte) = word_of_int x"
proof -
  have "(255::int) AND x = take_bit 8 x"
    by (simp add: take_bit_eq_mask mask_eq_exp_minus_1 and.commute)
  then show ?thesis
    by (simp add: word_of_int_eq_iff)
qed

lemma byte_of_shift: "(word_of_int (x + j * 2 ^ 32) :: byte) = word_of_int x"
proof -
  have "(x + j * 2 ^ 32) mod 2 ^ 8 = x mod 2 ^ 8"
  proof -
    have "(2::int) ^ 32 = 2 ^ 8 * 2 ^ 24" by simp
    then have "x + j * 2 ^ 32 = x + (j * 2 ^ 24) * 2 ^ 8" by simp
    then show ?thesis by (metis mod_mult_self1)
  qed
  then show ?thesis
    unfolding word_of_int_eq_iff take_bit_eq_mod by simp
qed

lemma byte_of_shift_div: "(word_of_int ((x + j * 2 ^ 32) div 256) :: byte) = word_of_int (x div 256)"
proof -
  have "(2::int) ^ 32 = 256 * 2 ^ 24" by simp
  then have "x + j * 2 ^ 32 = x + 256 * (j * 2 ^ 24)" by simp
  then have "(x + j * 2 ^ 32) div 256 = x div 256 + j * 2 ^ 24"
    by simp
  moreover have "(x div 256 + j * 2 ^ 24) mod 2 ^ 8 = (x div 256) mod 2 ^ 8"
  proof -
    have "(2::int) ^ 24 = 2 ^ 8 * 2 ^ 16" by simp
    then have "x div 256 + j * 2 ^ 24 = x div 256 + (j * 2 ^ 16) * 2 ^ 8" by simp
    then show ?thesis by (metis mod_mult_self1)
  qed
  ultimately show ?thesis
    unfolding word_of_int_eq_iff take_bit_eq_mod by simp
qed

lemma htons_bytes:
  "map toUint8 (htons b (length b) v) = map toUint8 b @ portBytes v"
proof -
  obtain j where j: "toInt32 (Num v) = v + j * 2 ^ 32"
    using toInt32_cong by blast
  have "toUint8 (Num (255 AND drop_bit 8 (toInt32 (Num v)))) = word_of_int (v div 256)"
    using byte_of_shift_div[of v j]
    by (simp only: toUint8_def number.case byte_of_and_255 j drop_bit_eq_div) simp
  moreover have "toUint8 (Num (255 AND toInt32 (Num v))) = word_of_int v"
    using byte_of_shift[of v j]
    by (simp only: toUint8_def number.case byte_of_and_255 j)
  ultimately show ?thesis
    by (simp add: htons_def setIndex_def portBytes_def)
qed

lemma connectRequest_cases:
  "connectRequest isIP h p =
     [5, 1, 0] @
       (if isIP h = 4 then 1 # map toUint8 (map (\<lambda>part. parseInt part 10) (split (CHR ''.'') h))
        else if isIP h = 6 then 4 # map toUint8 (parseIPv6 h [])
        else 3 # word_of_int (int (length h)) # map (\<lambda>c. word_of_int (int (of_char c))) h)
       @ portBytes p"
  by (simp add: connectRequest_def Let_def htons_bytes parseIPv4_def parseIPv6_def
      parseDomainName_def toUint8_def comp_def)

lemma parseIPv6_length: "length (parseIPv6 h buffer) = length buffer + 16"
proof -
  have "\<And>f :: nat \<Rightarrow> number list. (\<And>i. length (f i) = 2) \<Longrightarrow> length (concat (map f [0..<8])) = 16"
    by (simp add: upt_rec numeral_eq_Suc)
  then show ?thesis
    by (simp add: parseIPv6_def Let_def)
qed

lemma split_nonempty: "split sep s \<noteq> []"
  by (induction s) (auto split: list.splits)

lemma split_no_sep: "sep \<notin> set a \<Longrightarrow> split sep a = [a]"
  by (induction a) auto

lemma split_append: "split sep (x @ sep # r) = split sep x @ split sep r"
proof (induction x)
  case Nil
  then show ?case by simp
next
  case (Cons c x)
  obtain p ps where p: "split sep x = p # ps"
    using split_nonempty[of sep x] by (cases "split sep x") auto
  show ?case using Cons p by simp
qed

lemma radixDigit_props:
  assumes "isRadixDigit R c" and "R \<le> 16"
  shows "\<not> isWhiteSpace c" "c \<noteq> CHR ''-''" "c \<noteq> CHR ''+''" "c \<noteq> CHR ''x''" "c \<noteq> CHR ''X''"
    "c \<noteq> CHR '':''" "c \<noteq> CHR ''.''"
  using assms
  by (auto simp: isRadixDigit_def digitValue_def isWhiteSpace_def Let_def split: if_splits)

lemma mathInt_snoc:
  "isRadixDigit R c \<Longrightarrow> mathInt R (Z @ [c]) = mathInt R Z * R + the (digitValue c)"
  by (auto simp: mathInt_def isRadixDigit_def split: option.splits)

lemma mathInt_bound: "list_all (isRadixDigit R) Z \<Longrightarrow> mathInt R Z < R ^ length Z"
proof (induction Z rule: rev_induct)
  case Nil
  then show ?case by (simp add: mathInt_def)
next
  case (snoc c Z)
  then have c: "isRadixDigit R c" and Z: "mathInt R Z < R ^ length Z" by simp_all
  from c obtain v where v: "digitValue c = Some v" "v < R"
    by (auto simp: isRadixDigit_def split: option.splits)
  have "mathInt R (Z @ [c]) = mathInt R Z * R + v"
    using mathInt_snoc[OF c] v by simp
  also have "\<dots> < (mathInt R Z + 1) * R" using v(2) by simp
  also have "\<dots> \<le> R ^ length Z * R" using Z by (intro mult_right_mono) simp_all
  finally show ?case by (simp add: mult.commute)
qed

lemma parseInt_digits:
  assumes "Z \<noteq> []" and "list_all (isRadixDigit R) Z" and "R = 10 \<or> R = 16"
    and "mathInt R Z < 2 ^ 53"
  shows "parseInt Z R = Num (int (mathInt R Z))"
proof -
  obtain c Z' where Z: "Z = c # Z'" using assms(1) by (cases Z) auto
  have R: "R \<le> 16" using assms(3) by auto
  have c: "isRadixDigit R c" using assms(2) Z by simp
  note p = radixDigit_props[OF c R]
  have ws: "dropWhile isWhiteSpace Z = Z" using Z p(1) by simp
  have pre: "\<not> (R = 16 \<and> (take 2 Z = ''0x'' \<or> take 2 Z = ''0X''))"
  proof
    assume a: "R = 16 \<and> (take 2 Z = ''0x'' \<or> take 2 Z = ''0X'')"
    then obtain d Z'' where "Z' = d # Z''" "d = CHR ''x'' \<or> d = CHR ''X''"
      using Z by (cases Z') auto
    moreover have "isRadixDigit R d" using assms(2) Z calculation(1) by simp
    ultimately show False using radixDigit_props(4,5)[OF _ R] by blast
  qed
  have tw: "takeWhile (isRadixDigit R) Z = Z"
    using assms(2) by (simp add: list_all_iff takeWhile_eq_all_conv)
  have d: "toDouble (int (mathInt R Z)) = Num (int (mathInt R Z))"
    using assms(4) by (simp add: toDouble_def Let_def)
  have "parseInt Z R =
      (case toDouble (int (mathInt R Z)) of
                 Num v \<Rightarrow> Num (1 * v)
               | Infinity \<Rightarrow> (if (1::int) < 0 then NegInfinity else Infinity)
               | x \<Rightarrow> x)"
    unfolding parseInt_def ws Let_def using pre tw Z p(2,3) assms(1) by auto
  then show ?thesis using d by simp
qed

lemma octet_parse:
  assumes "octet a"
  shows "toUint8 (parseInt a 10) = of_nat (mathInt 10 a)" and "CHR ''.'' \<notin> set a"
proof -
  have d: "list_all (isRadixDigit 10) a" "a \<noteq> []" "length a \<le> 3"
    using assms by (simp_all add: octet_def)
  have "mathInt 10 a < 10 ^ length a" using d(1) by (rule mathInt_bound)
  also have "\<dots> \<le> 10 ^ 3" using d(3) by (intro power_increasing) simp_all
  finally have "mathInt 10 a < 2 ^ 53" by simp
  then have "parseInt a 10 = Num (int (mathInt 10 a))"
    using parseInt_digits[OF d(2) d(1)] by simp
  then show "toUint8 (parseInt a 10) = of_nat (mathInt 10 a)"
    by (simp add: toUint8_def)
  show "CHR ''.'' \<notin> set a"
    using d(1) radixDigit_props(7)[of 10] by (auto simp: list_all_iff)
qed

lemma connectRequest_ipv4:
  assumes "isIP (a @ ''.'' @ b @ ''.'' @ c @ ''.'' @ d) = 4"
    and "octet a" "octet b" "octet c" "octet d"
  shows "connectRequest isIP (a @ ''.'' @ b @ ''.'' @ c @ ''.'' @ d) p =
           [5, 1, 0, 1, of_nat (mathInt 10 a), of_nat (mathInt 10 b), of_nat (mathInt 10 c),
            of_nat (mathInt 10 d)] @ portBytes p"
proof -
  note o = octet_parse[OF assms(2)] octet_parse[OF assms(3)] octet_parse[OF assms(4)]
    octet_parse[OF assms(5)]
  have "split (CHR ''.'') (a @ ''.'' @ b @ ''.'' @ c @ ''.'' @ d) = [a, b, c, d]"
    using o by (simp add: split_append split_no_sep)
  then show ?thesis
    using assms(1) o by (simp add: connectRequest_cases)
qed

lemma hexGroup_parse:
  assumes "hexGroup g"
  shows "map toUint8 [highByte (parseInt g 16), lowByte (parseInt g 16)] = be16 (mathInt 16 g)"
    and "CHR '':'' \<notin> set g" and "g \<noteq> []"
proof -
  have d: "list_all (isRadixDigit 16) g" "g \<noteq> []" "length g \<le> 4"
    using assms by (simp_all add: hexGroup_def)
  have "mathInt 16 g < 16 ^ length g" using d(1) by (rule mathInt_bound)
  also have "\<dots> \<le> 16 ^ 4" using d(3) by (intro power_increasing) simp_all
  finally have b: "mathInt 16 g < 65536" by simp
  then have "mathInt 16 g < 2 ^ 53" by simp
  then have p: "parseInt g 16 = Num (int (mathInt 16 g))"
    using parseInt_digits[OF d(2) d(1)] by simp
  have "int (mathInt 16 g) div 256 < 2 ^ 31" using b by simp
  then have "toInt32 (Num (int (mathInt 16 g) div 256)) = int (mathInt 16 g) div 256"
    by (intro toInt32_small) simp_all
  moreover have "int (mathInt 16 g) div 256 = int (mathInt 16 g div 256)"
    "int (mathInt 16 g) mod 256 = int (mathInt 16 g mod 256)"
    by (simp_all add: zdiv_int zmod_int)
  ultimately show "map toUint8 [highByte (parseInt g 16), lowByte (parseInt g 16)] = be16 (mathInt 16 g)"
    by (simp add: p highByte_def lowByte_def toUint8_def be16_def)
  show "CHR '':'' \<notin> set g"
    using d(1) radixDigit_props(6)[of 16] by (auto simp: list_all_iff)
  show "g \<noteq> []" by (rule d(2))
qed

lemma zeros_hexGroup: "hexGroup ''0000''" "mathInt 16 ''0000'' = 0"
  by (simp_all add: hexGroup_def isRadixDigit_def digitValue_def mathInt_def)

lemma split_joinColon:
  assumes "gs \<noteq> []" and "\<forall>g \<in> set gs. CHR '':'' \<notin> set g"
  shows "split (CHR '':'') (joinColon gs) = gs"
  using assms
proof (induction gs rule: joinColon.induct)
  case 1
  then show ?case by simp
next
  case (2 g)
  then show ?case by (simp add: split_no_sep)
next
  case (3 g v va)
  then show ?case by (simp add: split_append split_no_sep)
qed

lemma indexOfEmpty_none: "\<forall>g \<in> set gs. g \<noteq> [] \<Longrightarrow> indexOfEmpty gs = None"
  by (induction gs) auto

lemma indexOfEmpty_first:
  "\<forall>g \<in> set A. g \<noteq> [] \<Longrightarrow> indexOfEmpty (A @ [] # B) = Some (length A)"
  by (induction A) auto

lemma expandParts_full:
  assumes "gs \<noteq> []" and "\<forall>g \<in> set gs. g \<noteq> []"
  shows "expandParts gs = gs"
proof -
  obtain g gs' where g: "gs = g # gs'" using assms(1) by (cases gs) auto
  have 1: "(case gs of [] \<Rightarrow> [] | p # ps \<Rightarrow> orZeros p # ps) = gs"
    using g assms(2) by (simp add: orZeros_def)
  have 2: "butlast gs @ [orZeros (last gs)] = gs"
    using assms by (simp add: orZeros_def)
  show ?thesis
    unfolding expandParts_def 1 Let_def using assms 2 by (simp add: indexOfEmpty_none)
qed

lemma expandParts_gap:
  assumes "\<forall>g \<in> set A. g \<noteq> []" and "\<forall>g \<in> set B. g \<noteq> []" and "A \<noteq> []" and "B \<noteq> []"
    and "length A + length B \<le> 8"
  shows "expandParts (A @ [] # B) = A @ replicate (8 - length A - length B) ''0000'' @ B"
proof -
  obtain a A' where a: "A = a # A'" using assms(3) by (cases A) auto
  have 1: "(case A @ [] # B of [] \<Rightarrow> [] | p # ps \<Rightarrow> orZeros p # ps) = A @ [] # B"
    using a assms(1) by (simp add: orZeros_def)
  have l: "last (A @ [] # B) = last B" "butlast (A @ [] # B) = A @ [] # butlast B"
    using assms(4) by (simp_all add: butlast_append)
  have 2: "butlast (A @ [] # B) @ [orZeros (last (A @ [] # B))] = A @ [] # B"
    unfolding l using assms(2,4) by (simp add: orZeros_def)
  have n: "nat (8 - int (length (A @ [] # B)) + 1) = 8 - length A - length B"
    using assms(5) by simp
  show ?thesis
    unfolding expandParts_def 1 Let_def
    using 2 n assms(1) by (simp add: indexOfEmpty_first)
qed

lemma expandParts_first: "expandParts ([] # rest) = expandParts (''0000'' # rest)"
  by (simp add: expandParts_def orZeros_def)

lemma expandParts_last: "expandParts (xs @ [[]]) = expandParts (xs @ [''0000''])"
  by (cases xs) (simp_all add: expandParts_def orZeros_def)

lemma zeros_nonempty: "\<forall>g \<in> set [''0000'']. g \<noteq> []"
  by simp

lemma hexGroups_nonempty: "list_all hexGroup gs \<Longrightarrow> \<forall>g \<in> set gs. g \<noteq> []"
  by (auto simp: list_all_iff hexGroup_def)

lemma hexGroups_no_colon: "list_all hexGroup gs \<Longrightarrow> \<forall>g \<in> set gs. CHR '':'' \<notin> set g"
  using hexGroup_parse(2) by (auto simp: list_all_iff)

lemma split_compressed:
  assumes "list_all hexGroup A" and "list_all hexGroup B"
  shows "split (CHR '':'') (joinColon A @ ''::'' @ joinColon B) =
           (if A = [] then [[]] else A) @ [] # (if B = [] then [[]] else B)"
proof -
  have A: "split (CHR '':'') (joinColon A) = (if A = [] then [[]] else A)"
    using split_joinColon[of A] hexGroups_no_colon[OF assms(1)] by simp
  have B: "split (CHR '':'') (joinColon B) = (if B = [] then [[]] else B)"
    using split_joinColon[of B] hexGroups_no_colon[OF assms(2)] by simp
  have "split (CHR '':'') (joinColon A @ CHR '':'' # (CHR '':'' # joinColon B)) =
          split (CHR '':'') (joinColon A) @ split (CHR '':'') (CHR '':'' # joinColon B)"
    by (rule split_append)
  then show ?thesis using A B by simp
qed

lemma expandParts_compressed:
  assumes "list_all hexGroup A" and "list_all hexGroup B" and "length A + length B \<le> 7"
  shows "expandParts (split (CHR '':'') (joinColon A @ ''::'' @ joinColon B)) =
           A @ replicate (8 - length A - length B) ''0000'' @ B"
proof -
  note nA = hexGroups_nonempty[OF assms(1)] and nB = hexGroups_nonempty[OF assms(2)]
  consider (both) "A \<noteq> []" "B \<noteq> []" | (left) "A = []" "B \<noteq> []" | (right) "A \<noteq> []" "B = []"
    | (none) "A = []" "B = []" by blast
  then show ?thesis
  proof cases
    case both
    then show ?thesis
      unfolding split_compressed[OF assms(1,2)]
      using expandParts_gap[OF nA nB both] assms(3) by simp
  next
    case left
    have "expandParts ([] # [] # B) = expandParts ([''0000''] @ [] # B)"
      using expandParts_first[of "[] # B"] by simp
    also have "\<dots> = [''0000''] @ replicate (8 - length [''0000''] - length B) ''0000'' @ B"
      using assms(3) by (intro expandParts_gap zeros_nonempty nB left(2)) simp_all
    also have "\<dots> = replicate (8 - length B) ''0000'' @ B"
    proof -
      obtain k where k: "8 - length B = Suc k" "8 - length [''0000''] - length B = k"
        using assms(3) left by (cases "8 - length B") simp_all
      show ?thesis unfolding k by simp
    qed
    finally show ?thesis
      unfolding split_compressed[OF assms(1,2)] using left by simp
  next
    case right
    have "expandParts ((A @ [[]]) @ [[]]) = expandParts (A @ [] # [''0000''])"
      using expandParts_last[of "A @ [[]]"] by simp
    also have "\<dots> = A @ replicate (8 - length A - length [''0000'']) ''0000'' @ [''0000'']"
      using assms(3) by (intro expandParts_gap zeros_nonempty nA right(1)) simp_all
    also have "\<dots> = A @ replicate (8 - length A) ''0000''"
    proof -
      obtain k where k: "8 - length A = Suc k" "8 - length A - length [''0000''] = k"
        using assms(3) right by (cases "8 - length A") simp_all
      show ?thesis unfolding k by (simp add: replicate_append_same)
    qed
    finally show ?thesis
      unfolding split_compressed[OF assms(1,2)] using right by simp
  next
    case none
    then show ?thesis
      unfolding split_compressed[OF assms(1,2)]
      by (simp add: expandParts_def orZeros_def numeral_eq_Suc)
  qed
qed

lemma groups_bytes:
  assumes "length parts = 8" and "list_all hexGroup parts"
  shows "map toUint8 (concat (map (\<lambda>i. let num = (if i < length parts then parseInt (parts ! i) 16 else NaN)
                                  in [highByte num, lowByte num]) [0..<8]))
           = concat (map (\<lambda>g. be16 (mathInt 16 g)) parts)"
proof -
  have "map (\<lambda>i. let num = (if i < length parts then parseInt (parts ! i) 16 else NaN)
                                  in [highByte num, lowByte num]) [0..<8]
        = map (\<lambda>i. (\<lambda>g. [highByte (parseInt g 16), lowByte (parseInt g 16)]) (parts ! i)) [0..<length parts]"
    using assms(1) by (simp add: Let_def)
  also have "\<dots> = map (\<lambda>g. [highByte (parseInt g 16), lowByte (parseInt g 16)]) parts"
    by (simp only: map_nth flip: map_map comp_def[of "\<lambda>g. [highByte (parseInt g 16), lowByte (parseInt g 16)]" "(!) parts"])
  finally have "map toUint8 (concat (map (\<lambda>i. let num = (if i < length parts then parseInt (parts ! i) 16 else NaN)
                                  in [highByte num, lowByte num]) [0..<8]))
        = concat (map (\<lambda>g. map toUint8 [highByte (parseInt g 16), lowByte (parseInt g 16)]) parts)"
    by (simp add: map_concat comp_def)
  also have "\<dots> = concat (map (\<lambda>g. be16 (mathInt 16 g)) parts)"
    using assms(2) hexGroup_parse(1) by (intro arg_cong[where f = concat] map_cong) (auto simp: list_all_iff)
  finally show ?thesis .
qed

lemma connectRequest_ipv6:
  assumes "isIP h = 6" and "length (expandParts (split (CHR '':'') h)) = 8"
    and "list_all hexGroup (expandParts (split (CHR '':'') h))"
  shows "connectRequest isIP h p =
           [5, 1, 0, 4] @ concat (map (\<lambda>g. be16 (mathInt 16 g)) (expandParts (split (CHR '':'') h)))
             @ portBytes p"
  using assms(1) groups_bytes[OF assms(2,3)]
  by (simp add: connectRequest_cases parseIPv6_def Let_def)

lemma portBytes_values:
  assumes "0 \<le> p" and "p < 65536"
  shows "map uint (portBytes p) = [p div 256, p mod 256]"
proof -
  have "p div 256 < 256" using assms by simp
  moreover have "0 \<le> p div 256" using assms by simp
  ultimately have "take_bit 8 (p div 256) = p div 256"
    by (simp add: take_bit_int_eq_self)
  then show ?thesis
    by (simp add: portBytes_def uint_word_of_int_eq take_bit_eq_mod)
qed

text \<open>
  C6. Every CONNECT request starts with 05 01 00 and ends with the port, high byte
  first. For a host that \<open>net.isIP\<close> takes for neither kind of literal the address is
  03, the length of the host as a byte, and the code of each character of the host.
  For a dotted IPv4 literal it is 01 and the four octets. For an IPv6 literal it is 04
  and sixteen bytes; when the literal is groups of hexadecimal digits with one \<open>::\<close>
  these are the groups before it, zero groups up to eight groups in all, and the groups
  after it, and when it is eight groups they are those groups, two bytes each. The
  request to \<open>example.org\<close>, port 21, is 05 01 00 03 0b, the bytes of \<open>example.org\<close>,
  00 15. \<open>sendConnect\<close> hands exactly this request to the wrapped socket.
\<close>

theorem connect_request_encoding:
  "take 3 (connectRequest isIP h p) = [5, 1, 0]
   \<and> drop (length (connectRequest isIP h p) - 2) (connectRequest isIP h p) = portBytes p
   \<and> (0 \<le> p \<and> p < 65536 \<longrightarrow> map uint (portBytes p) = [p div 256, p mod 256])
   \<and> (isIP h \<noteq> 4 \<and> isIP h \<noteq> 6 \<longrightarrow>
        connectRequest isIP h p =
          [5, 1, 0, 3, of_nat (length h)] @ map (\<lambda>c. of_nat (of_char c)) h @ portBytes p)
   \<and> (isIP (a @ ''.'' @ b @ ''.'' @ c @ ''.'' @ d) = 4 \<and> octet a \<and> octet b \<and> octet c \<and> octet d \<longrightarrow>
        connectRequest isIP (a @ ''.'' @ b @ ''.'' @ c @ ''.'' @ d) p =
          [5, 1, 0, 1, of_nat (mathInt 10 a), of_nat (mathInt 10 b), of_nat (mathInt 10 c),
           of_nat (mathInt 10 d)] @ portBytes p)
   \<and> (isIP h = 6 \<longrightarrow>
        take 4 (connectRequest isIP h p) = [5, 1, 0, 4] \<and> length (connectRequest isIP h p) = 22)
   \<and> (isIP (joinColon A @ ''::'' @ joinColon B) = 6 \<and> list_all hexGroup A \<and> list_all hexGroup B
        \<and> length A + length B \<le> 7 \<longrightarrow>
        connectRequest isIP (joinColon A @ ''::'' @ joinColon B) p =
          [5, 1, 0, 4]
            @ concat (map (\<lambda>g. be16 (mathInt 16 g)) (A @ replicate (8 - length A - length B) ''0000'' @ B))
            @ portBytes p)
   \<and> (isIP (joinColon G) = 6 \<and> list_all hexGroup G \<and> length G = 8 \<longrightarrow>
        connectRequest isIP (joinColon G) p =
          [5, 1, 0, 4] @ concat (map (\<lambda>g. be16 (mathInt 16 g)) G) @ portBytes p)
   \<and> (isIP ''example.org'' = 0 \<longrightarrow>
        connectRequest isIP ''example.org'' 21 =
          [5, 1, 0, 3, 11, 101, 120, 97, 109, 112, 108, 101, 46, 111, 114, 103, 0, 21])
   \<and> sendConnect isIP s =
        (realCall (RealWrite (Bytes (connectRequest isIP (host s) (port s))) None None) s,
         if writeResult (realSocket s) (length (calls (realSocket s))) then None
         else Some (newError ''Unable to write to socks5 proxy socket''))"
proof -
  have 1: "take 3 (connectRequest isIP h p) = [5, 1, 0]"
    by (simp add: connectRequest_cases)
  have 2: "drop (length (connectRequest isIP h p) - 2) (connectRequest isIP h p) = portBytes p"
  proof -
    obtain xs where "connectRequest isIP h p = xs @ portBytes p"
      using connectRequest_cases[of isIP h p] by (metis append.assoc)
    then show ?thesis by (simp add: portBytes_def)
  qed
  have 3: "0 \<le> p \<and> p < 65536 \<longrightarrow> map uint (portBytes p) = [p div 256, p mod 256]"
    using portBytes_values by blast
  have 4: "isIP h \<noteq> 4 \<and> isIP h \<noteq> 6 \<longrightarrow>
        connectRequest isIP h p =
          [5, 1, 0, 3, of_nat (length h)] @ map (\<lambda>c. of_nat (of_char c)) h @ portBytes p"
    by (simp add: connectRequest_cases)
  have 5: "isIP (a @ ''.'' @ b @ ''.'' @ c @ ''.'' @ d) = 4 \<and> octet a \<and> octet b \<and> octet c \<and> octet d \<longrightarrow>
        connectRequest isIP (a @ ''.'' @ b @ ''.'' @ c @ ''.'' @ d) p =
          [5, 1, 0, 1, of_nat (mathInt 10 a), of_nat (mathInt 10 b), of_nat (mathInt 10 c),
           of_nat (mathInt 10 d)] @ portBytes p"
    using connectRequest_ipv4 by blast
  have 6: "isIP h = 6 \<longrightarrow>
        take 4 (connectRequest isIP h p) = [5, 1, 0, 4] \<and> length (connectRequest isIP h p) = 22"
    using parseIPv6_length[of h "[]"] by (simp add: connectRequest_cases portBytes_def)
  have 7: "isIP (joinColon A @ ''::'' @ joinColon B) = 6 \<and> list_all hexGroup A \<and> list_all hexGroup B
        \<and> length A + length B \<le> 7 \<longrightarrow>
        connectRequest isIP (joinColon A @ ''::'' @ joinColon B) p =
          [5, 1, 0, 4]
            @ concat (map (\<lambda>g. be16 (mathInt 16 g)) (A @ replicate (8 - length A - length B) ''0000'' @ B))
            @ portBytes p"
  proof (intro impI, elim conjE)
    assume ip: "isIP (joinColon A @ ''::'' @ joinColon B) = 6"
      and A: "list_all hexGroup A" and B: "list_all hexGroup B" and l: "length A + length B \<le> 7"
    note e = expandParts_compressed[OF A B l]
    have len: "length (expandParts (split (CHR '':'') (joinColon A @ ''::'' @ joinColon B))) = 8"
      unfolding e using l by simp
    have all: "list_all hexGroup (expandParts (split (CHR '':'') (joinColon A @ ''::'' @ joinColon B)))"
      unfolding e using A B zeros_hexGroup(1) by (auto simp: list_all_iff)
    show "connectRequest isIP (joinColon A @ ''::'' @ joinColon B) p =
          [5, 1, 0, 4]
            @ concat (map (\<lambda>g. be16 (mathInt 16 g)) (A @ replicate (8 - length A - length B) ''0000'' @ B))
            @ portBytes p"
      using connectRequest_ipv6[of isIP "joinColon A @ ''::'' @ joinColon B" p, OF ip len all] unfolding e .
  qed
  have 8: "isIP (joinColon G) = 6 \<and> list_all hexGroup G \<and> length G = 8 \<longrightarrow>
        connectRequest isIP (joinColon G) p =
          [5, 1, 0, 4] @ concat (map (\<lambda>g. be16 (mathInt 16 g)) G) @ portBytes p"
  proof (intro impI, elim conjE)
    assume ip: "isIP (joinColon G) = 6" and G: "list_all hexGroup G" and l: "length G = 8"
    have ne: "G \<noteq> []" using l by auto
    have e: "expandParts (split (CHR '':'') (joinColon G)) = G"
      using split_joinColon[OF ne hexGroups_no_colon[OF G]]
        expandParts_full[OF ne hexGroups_nonempty[OF G]] by simp
    show "connectRequest isIP (joinColon G) p =
          [5, 1, 0, 4] @ concat (map (\<lambda>g. be16 (mathInt 16 g)) G) @ portBytes p"
      using connectRequest_ipv6[of isIP "joinColon G" p] ip G l unfolding e by simp
  qed
  have 9: "isIP ''example.org'' = 0 \<longrightarrow>
        connectRequest isIP ''example.org'' 21 =
          [5, 1, 0, 3, 11, 101, 120, 97, 109, 112, 108, 101, 46, 111, 114, 103, 0, 21]"
    by (simp add: connectRequest_cases portBytes_def)
  have 10: "sendConnect isIP s =
        (realCall (RealWrite (Bytes (connectRequest isIP (host s) (port s))) None None) s,
         if writeResult (realSocket s) (length (calls (realSocket s))) then None
         else Some (newError ''Unable to write to socks5 proxy socket''))"
    by (simp add: sendConnect_def realWrite_def)
  show ?thesis
    using 1 2 3 4 5 6 7 8 9 10 by (intro conjI)
qed

lemma example_groups:
  "octet ''192''" "octet ''168''" "octet ''1''" "octet ''100''"
  "list_all hexGroup [''fe80'']" "list_all hexGroup [''1'']" "hexGroup ''fe80''" "hexGroup ''1''"
  by (simp_all add: octet_def hexGroup_def isRadixDigit_def digitValue_def)

lemma replicate_6: "replicate 6 x = [x, x, x, x, x, x]"
  by (simp add: numeral_eq_Suc)

lemma example_values:
  "mathInt 10 ''192'' = 192" "mathInt 10 ''168'' = 168" "mathInt 10 ''1'' = 1" "mathInt 10 ''100'' = 100"
  "mathInt 16 ''fe80'' = 65152" "mathInt 16 ''1'' = 1" "mathInt 16 ''0000'' = 0"
  by (simp_all add: mathInt_def digitValue_def)

theorem connect_request_encoding_witness:
  "octet ''192'' \<and> octet ''168'' \<and> octet ''1'' \<and> octet ''100''
   \<and> connectRequest (\<lambda>_. 4) ''192.168.1.100'' 21 = [5, 1, 0, 1, 192, 168, 1, 100, 0, 21]
   \<and> list_all hexGroup [''fe80''] \<and> list_all hexGroup [''1'']
   \<and> connectRequest (\<lambda>_. 6) ''fe80::1'' 8080 =
        [5, 1, 0, 4, 254, 128, 0, 0, 0, 0, 0, 0, 0, 0, 0, 0, 0, 0, 0, 1, 31, 144]
   \<and> connectRequest noIP ''example.org'' 21 =
        [5, 1, 0, 3, 11, 101, 120, 97, 109, 112, 108, 101, 46, 111, 114, 103, 0, 21]"
proof -
  note v4 = connect_request_encoding[where isIP="\<lambda>_. 4" and a="''192''" and b="''168''" and c="''1''"
      and d="''100''" and p=21,
      THEN conjunct2, THEN conjunct2, THEN conjunct2, THEN conjunct2, THEN conjunct1]
  have a: "connectRequest (\<lambda>_. 4) ''192.168.1.100'' 21 = [5, 1, 0, 1, 192, 168, 1, 100, 0, 21]"
    using v4 by (simp add: example_groups example_values portBytes_def)
  note v6 = connect_request_encoding[where isIP="\<lambda>_. 6" and A="[''fe80'']" and B="[''1'']" and p=8080,
      THEN conjunct2, THEN conjunct2, THEN conjunct2, THEN conjunct2, THEN conjunct2, THEN conjunct2,
      THEN conjunct1]
  have b: "connectRequest (\<lambda>_. 6) ''fe80::1'' 8080 =
        [5, 1, 0, 4, 254, 128, 0, 0, 0, 0, 0, 0, 0, 0, 0, 0, 0, 0, 0, 1, 31, 144]"
    using v6 by (simp add: example_groups example_values portBytes_def be16_def replicate_6)
  note dom = connect_request_encoding[where isIP=noIP,
      THEN conjunct2, THEN conjunct2, THEN conjunct2, THEN conjunct2, THEN conjunct2, THEN conjunct2,
      THEN conjunct2, THEN conjunct2, THEN conjunct1]
  have c: "connectRequest noIP ''example.org'' 21 =
        [5, 1, 0, 3, 11, 101, 120, 97, 109, 112, 108, 101, 46, 111, 114, 103, 0, 21]"
    using dom by (simp add: noIP_def)
  show ?thesis
    using a b c example_groups(1-6) by (intro conjI)
qed

end
